theory Spec2Isabelle
  imports Main "HOL-Library.AList" "HOL-Library.Char_ord" "HOL-Library.List_Lexorder"
begin

unbundle bit_operations_syntax

section \<open>Strings, exceptions and the storage\<close>

text \<open>
  A Python \<open>str\<close> is modelled by its UTF-8 bytes, an Isabelle \<open>string\<close>. The characters
  the code looks at (carriage return, line feed, blank, the letters of \<open>field_\<close>) are ASCII,
  and UTF-8 never uses an ASCII byte inside a longer sequence, so \<open>replace\<close>, \<open>strip\<close>
  and \<open>startswith\<close> on bytes agree with Python's on code points; \<open>str.encode()\<close> is the
  identity of the model.

  Every exception the modelled code can raise is a value of \<open>error\<close>; a function that can
  raise returns \<open>error + 'a\<close>.
\<close>

datatype error =
    StopIteration
  | TemplateSyntaxError
  | Impossible
  | FileNotFoundError
  | KeyError
  | Unmodelled

text \<open>
  The storage: the text of every file as Python's text-mode \<open>read()\<close> returns it, and the
  listing of every directory. The werkzeug form \<open>request.form\<close> is the list of its
  (key, value) pairs in submission order.
\<close>

datatype storage = Storage (files: "string \<rightharpoonup> string") (dirs: "string \<rightharpoonup> string list")

text \<open>
  Modelled from the spec: the canonical form of the line terminators (section 4.4) is
  made by Python's text mode, which is not part of src/. \<open>open(path, "r")\<close> and
  \<open>open(path, "r+")\<close> read with universal newlines: \<open>read()\<close> returns \<open>\r\n\<close> and a
  lone \<open>\r\<close> as \<open>\n\<close>. \<open>mount\<close> is the storage that the code sees when the files
  hold the given texts on disk.
\<close>

fun universal_newlines :: "string \<Rightarrow> string" where
  "universal_newlines (c # d # cs) =
     (if c = CHR 0x0D \<and> d = CHR 0x0A then CHR 0x0A # universal_newlines cs
      else if c = CHR 0x0D then CHR 0x0A # universal_newlines (d # cs)
      else c # universal_newlines (d # cs))"
| "universal_newlines [c] = (if c = CHR 0x0D then [CHR 0x0A] else [c])"
| "universal_newlines [] = []"

definition mount :: "(string \<rightharpoonup> string) \<Rightarrow> (string \<rightharpoonup> string list) \<Rightarrow> storage" where
  "mount disk listing = Storage (\<lambda>p. map_option universal_newlines (disk p)) listing"

type_synonym form = "(string \<times> string) list"

text \<open>\<open>MultiDict.get(key)\<close>: the first value of the key, or \<open>None\<close>.\<close>

definition form_get :: "form \<Rightarrow> string \<Rightarrow> string option" where
  "form_get form key = map_of form key"

text \<open>\<open>MultiDict.items()\<close>: every key once, with its first value, in order.\<close>

fun form_items :: "form \<Rightarrow> (string \<times> string) list" where
  "form_items [] = []"
| "form_items (kv # rest) = kv # form_items (filter (\<lambda>kv'. fst kv' \<noteq> fst kv) rest)"

text \<open>
  A Python \<open>dict\<close> keeps insertion order; \<open>d[k] = v\<close> replaces the value of an existing key
  in place and appends a new key. That is \<open>AList.update\<close>. A dict comprehension and
  \<open>dict.update\<close> store their pairs one after the other.
\<close>

definition dict_update :: "('k \<times> 'v) list \<Rightarrow> ('k \<times> 'v) list \<Rightarrow> ('k \<times> 'v) list" where
  "dict_update d kvs = foldl (\<lambda>acc kv. AList.update (fst kv) (snd kv) acc) d kvs"

definition dict_of :: "('k \<times> 'v) list \<Rightarrow> ('k \<times> 'v) list" where
  "dict_of kvs = dict_update [] kvs"

definition startswith :: "string \<Rightarrow> string \<Rightarrow> bool" where
  "startswith s p = (take (length p) s = p)"

text \<open>\<open>os.path.join\<close> of two components on a POSIX system.\<close>

definition os_path_join :: "string \<Rightarrow> string \<Rightarrow> string" where
  "os_path_join a b =
     (if startswith b ''/'' then b
      else if a = [] \<or> last a = CHR ''/'' then a @ b
      else a @ ''/'' @ b)"

definition PROJECT_DIR :: string where
  "PROJECT_DIR = ''projects''"

definition TEMPLATE_DIR :: string where
  "TEMPLATE_DIR = ''templates''"

text \<open>\<open>Item.fullpath\<close> and \<open>Item.project_dir\<close> (src/cms/item.py).\<close>

definition fullpath :: "string \<Rightarrow> string" where
  "fullpath path = os_path_join PROJECT_DIR path"

definition project_dir :: "string \<Rightarrow> string" where
  "project_dir path = os_path_join PROJECT_DIR (takeWhile (\<lambda>c. c \<noteq> CHR ''/'') path)"

section \<open>Normalization and the fingerprint\<close>

text \<open>
  \<open>_normalize\<close>: \<open>content.replace("\r\n", "\n").strip("\n ")\<close>. \<open>str.replace\<close> scans
  from the left and does not look again at what it has replaced.
\<close>

fun replace_crlf :: "string \<Rightarrow> string" where
  "replace_crlf (c # d # cs) =
     (if c = CHR 0x0D \<and> d = CHR 0x0A then CHR 0x0A # replace_crlf cs
      else c # replace_crlf (d # cs))"
| "replace_crlf cs = cs"

definition strip :: "string \<Rightarrow> string \<Rightarrow> string" where
  "strip chars s =
     rev (dropWhile (\<lambda>c. c \<in> set chars) (rev (dropWhile (\<lambda>c. c \<in> set chars) s)))"

definition normalize :: "string \<Rightarrow> string" where
  "normalize content = strip ''\<newline> '' (replace_crlf content)"

subsection \<open>SHA-256\<close>

text \<open>
  \<open>_hash\<close> is \<open>hashlib.sha256(content.encode()).hexdigest()\<close>. \<open>hashlib\<close> belongs to
  Python's standard library, not to src/; its digest is SHA-256 as FIPS 180-4 defines it,
  written here on 32-bit words as integers with the wrap-around \<open>mod 2 ^ 32\<close> spelled
  out. The round constants and the initial state are given in decimal.
\<close>

definition K256 :: "int list" where
  "K256 = [
   1116352408, 1899447441, 3049323471, 3921009573, 961987163, 1508970993, 2453635748, 2870763221,
   3624381080, 310598401, 607225278, 1426881987, 1925078388, 2162078206, 2614888103, 3248222580,
   3835390401, 4022224774, 264347078, 604807628, 770255983, 1249150122, 1555081692, 1996064986,
   2554220882, 2821834349, 2952996808, 3210313671, 3336571891, 3584528711, 113926993, 338241895,
   666307205, 773529912, 1294757372, 1396182291, 1695183700, 1986661051, 2177026350, 2456956037,
   2730485921, 2820302411, 3259730800, 3345764771, 3516065817, 3600352804, 4094571909, 275423344,
   430227734, 506948616, 659060556, 883997877, 958139571, 1322822218, 1537002063, 1747873779,
   1955562222, 2024104815, 2227730452, 2361852424, 2428436474, 2756734187, 3204031479, 3329325298]"

type_synonym sha_state = "int \<times> int \<times> int \<times> int \<times> int \<times> int \<times> int \<times> int"

definition H0 :: sha_state where
  "H0 = (1779033703, 3144134277, 1013904242, 2773480762,
         1359893119, 2600822924, 528734635, 1541459225)"

definition add32 :: "int \<Rightarrow> int \<Rightarrow> int" where
  "add32 x y = (x + y) mod 4294967296"

definition rotr :: "nat \<Rightarrow> int \<Rightarrow> int" where
  "rotr n w = w div 2 ^ n + (w mod 2 ^ n) * 2 ^ (32 - n)"

definition not32 :: "int \<Rightarrow> int" where
  "not32 x = 4294967295 - x"

definition ssig0 :: "int \<Rightarrow> int" where
  "ssig0 x = rotr 7 x XOR rotr 18 x XOR x div 2 ^ 3"

definition ssig1 :: "int \<Rightarrow> int" where
  "ssig1 x = rotr 17 x XOR rotr 19 x XOR x div 2 ^ 10"

definition bsig0 :: "int \<Rightarrow> int" where
  "bsig0 x = rotr 2 x XOR rotr 13 x XOR rotr 22 x"

definition bsig1 :: "int \<Rightarrow> int" where
  "bsig1 x = rotr 6 x XOR rotr 11 x XOR rotr 25 x"

definition ch :: "int \<Rightarrow> int \<Rightarrow> int \<Rightarrow> int" where
  "ch x y z = (x AND y) XOR (not32 x AND z)"

definition maj :: "int \<Rightarrow> int \<Rightarrow> int \<Rightarrow> int" where
  "maj x y z = (x AND y) XOR (x AND z) XOR (y AND z)"

text \<open>The message schedule: \<open>ws\<close> holds the last sixteen words, the oldest first.\<close>

fun sched :: "nat \<Rightarrow> int list \<Rightarrow> int list" where
  "sched 0 ws = []"
| "sched (Suc n) ws =
    (let w = add32 (add32 (add32 (ssig1 (ws ! 14)) (ws ! 9)) (ssig0 (ws ! 1))) (ws ! 0)
     in w # sched n (tl ws @ [w]))"

fun round_step :: "sha_state \<Rightarrow> int \<times> int \<Rightarrow> sha_state" where
  "round_step (a, b, c, d, e, f, g, h) (k, w) =
     (let t1 = add32 (add32 (add32 (add32 h (bsig1 e)) (ch e f g)) k) w;
          t2 = add32 (bsig0 a) (maj a b c)
      in (add32 t1 t2, a, b, c, add32 d t1, e, f, g))"

fun add_state :: "sha_state \<Rightarrow> sha_state \<Rightarrow> sha_state" where
  "add_state (a, b, c, d, e, f, g, h) (a', b', c', d', e', f', g', h') =
     (add32 a a', add32 b b', add32 c c', add32 d d',
      add32 e e', add32 f f', add32 g g', add32 h h')"

definition compress :: "sha_state \<Rightarrow> int list \<Rightarrow> sha_state" where
  "compress hs blk = add_state hs (foldl round_step hs (zip K256 (blk @ sched 48 blk)))"

fun be_words :: "int list \<Rightarrow> int list" where
  "be_words (a # b # c # d # r) = (((a * 256 + b) * 256 + c) * 256 + d) # be_words r"
| "be_words r = []"

fun chunks :: "nat \<Rightarrow> int list \<Rightarrow> int list list" where
  "chunks 0 xs = []"
| "chunks (Suc n) xs = take 16 xs # chunks n (drop 16 xs)"

definition pad :: "int list \<Rightarrow> int list" where
  "pad m =
     (let l = length m; z = (119 - l mod 64) mod 64; bits = 8 * int l
      in m @ [128] @ replicate z 0 @ map (\<lambda>i. (bits div 256 ^ (7 - i)) mod 256) [0..<8])"

definition sha256 :: "int list \<Rightarrow> sha_state" where
  "sha256 m = (let ws = be_words (pad m) in foldl compress H0 (chunks (length ws div 16) ws))"

definition hexdigit :: "int \<Rightarrow> char" where
  "hexdigit n = ''0123456789abcdef'' ! nat n"

definition hex32 :: "int \<Rightarrow> string" where
  "hex32 w = map (\<lambda>i. hexdigit ((w div 16 ^ (7 - i)) mod 16)) [0..<8]"

definition hexdigest :: "sha_state \<Rightarrow> string" where
  "hexdigest st =
     (case st of (a, b, c, d, e, f, g, h) \<Rightarrow> concat (map hex32 [a, b, c, d, e, f, g, h]))"

text \<open>\<open>_hash\<close> (src/cms/file.py, line 16).\<close>

definition hash :: "string \<Rightarrow> string" where
  "hash content = hexdigest (sha256 (map of_char content))"

section \<open>Tokens and the token stream\<close>

text \<open>
  \<open>_Token\<close> is a named tuple of line number, token type and text. The generator that
  \<open>jinja2.Environment().lex\<close> returns is a finite list of tokens together with the
  exception that \<open>next\<close> raises once the list is used up: \<open>StopIteration\<close> at the end of
  the text, \<open>TemplateSyntaxError\<close> where the lexer gives up.
\<close>

datatype Token = Token (lineno: int) (ttype: string) (tvalue: string)

type_synonym stream = "Token list \<times> error"

section \<open>The block scanner and the field extractor\<close>

text \<open>
  The inner loop of \<open>_parse_block\<close> (line 114): the tokens up to the next \<open>name\<close> token
  are appended to the buffer.
\<close>

fun parse_block_tag :: "string \<Rightarrow> stream \<Rightarrow> error + (string \<times> Token \<times> stream)" where
  "parse_block_tag buffer ([], e) = Inl e"
| "parse_block_tag buffer (token # ts, e) =
     (if ttype token \<noteq> ''name'' then parse_block_tag (buffer @ tvalue token) (ts, e)
      else Inr (buffer, token, (ts, e)))"

lemma parse_block_tag_shorter:
  "parse_block_tag buffer s = Inr (b, t, s') \<Longrightarrow> length (fst s') < length (fst s)"
  by (induction buffer s rule: parse_block_tag.induct) (auto split: if_splits)

text \<open>
  The loop of \<open>_parse_block\<close> (lines 109 to 126), with the depth counter and the text
  gathered so far as its state. It returns the text and the stream left over.
\<close>

function parse_block_loop :: "int \<Rightarrow> string \<Rightarrow> stream \<Rightarrow> error + (string \<times> stream)" where
  "parse_block_loop depth data ([], e) = Inl e"
| "parse_block_loop depth data (token # ts, e) =
     (if ttype token = ''block_begin'' then
        (case parse_block_tag (tvalue token) (ts, e) of
           Inl x \<Rightarrow> Inl x
         | Inr (buffer, token', s') \<Rightarrow>
             if tvalue token' = ''endblock'' then
               (if depth - 1 \<le> 0 then Inr (data, s')
                else parse_block_loop (depth - 1) (data @ buffer @ tvalue token') s')
             else if tvalue token' = ''block'' then
               parse_block_loop (depth + 1) (data @ buffer @ tvalue token') s'
             else parse_block_loop depth (data @ buffer @ tvalue token') s')
      else parse_block_loop depth (data @ tvalue token) (ts, e))"
  by pat_completeness auto
termination
  by (relation "measure (\<lambda>(depth, data, s). length (fst s))")
     (auto dest: parse_block_tag_shorter)

definition parse_block :: "stream \<Rightarrow> error + (string \<times> stream)" where
  "parse_block s = parse_block_loop 1 [] s"

text \<open>\<open>until\<close> (line 135): skip to the next token of the given type.\<close>

fun until :: "stream \<Rightarrow> string \<Rightarrow> error + (Token \<times> stream)" where
  "until ([], e) ty = Inl e"
| "until (token # ts, e) ty =
     (if ttype token \<noteq> ty then until (ts, e) ty else Inr (token, (ts, e)))"

lemma until_shorter: "until s ty = Inr (t, s') \<Longrightarrow> length (fst s') < length (fst s)"
  by (induction s ty rule: until.induct) (auto split: if_splits)

lemma parse_block_loop_shorter:
  "parse_block_loop depth data s = Inr (r, s') \<Longrightarrow> length (fst s') < length (fst s)"
proof (induction depth data s rule: parse_block_loop.induct)
  case (1 depth data e)
  then show ?case by simp
next
  case (2 depth data token ts e)
  show ?case
  proof (cases "ttype token = ''block_begin''")
    case False
    with 2 show ?thesis by auto
  next
    case True
    then obtain buffer token' s1 where
      tag: "parse_block_tag (tvalue token) (ts, e) = Inr (buffer, token', s1)"
      using "2.prems" by (auto split: sum.splits)
    note ih1 = "2.IH"(1) [OF True tag refl refl]
    note ih2 = "2.IH"(2) [OF True tag refl refl]
    note ih3 = "2.IH"(3) [OF True tag refl refl]
    from parse_block_tag_shorter [OF tag] have len: "length (fst s1) < length ts"
      by simp
    have p: "(if tvalue token' = ''endblock'' then
               (if depth - 1 \<le> 0 then Inr (data, s1)
                else parse_block_loop (depth - 1) (data @ buffer @ tvalue token') s1)
             else if tvalue token' = ''block'' then
               parse_block_loop (depth + 1) (data @ buffer @ tvalue token') s1
             else parse_block_loop depth (data @ buffer @ tvalue token') s1) = Inr (r, s')"
      using "2.prems" True tag by simp
    have "length (fst s') \<le> length (fst s1)"
    proof (cases "tvalue token' = ''endblock''")
      case eb: True
      show ?thesis
      proof (cases "depth - 1 \<le> 0")
        case True
        with p eb show ?thesis by simp
      next
        case False
        with p eb have "parse_block_loop (depth - 1) (data @ buffer @ tvalue token') s1 = Inr (r, s')"
          by simp
        from ih1 [OF eb False this] show ?thesis by simp
      qed
    next
      case neb: False
      show ?thesis
      proof (cases "tvalue token' = ''block''")
        case True
        with p neb have "parse_block_loop (depth + 1) (data @ buffer @ tvalue token') s1 = Inr (r, s')"
          by simp
        from ih2 [OF neb True this] show ?thesis by simp
      next
        case False
        with p neb have "parse_block_loop depth (data @ buffer @ tvalue token') s1 = Inr (r, s')"
          by simp
        from ih3 [OF neb False this] show ?thesis by simp
      qed
    qed
    with len show ?thesis by simp
  qed
qed

text \<open>
  The loop of \<open>_get_fields\<close> (lines 140 to 150). The \<open>for\<close> statement ends when the
  stream raises \<open>StopIteration\<close>; any other exception of the stream, and every exception
  raised inside the loop body, leaves \<open>_get_fields\<close>.
\<close>

function get_fields_loop ::
  "(string \<times> string) list \<Rightarrow> stream \<Rightarrow> error + (string \<times> string) list" where
  "get_fields_loop fields ([], e) = (if e = StopIteration then Inr fields else Inl e)"
| "get_fields_loop fields (token # ts, e) =
     (if ttype token \<noteq> ''block_begin'' then get_fields_loop fields (ts, e)
      else
        (case until (ts, e) ''name'' of
           Inl x \<Rightarrow> Inl x
         | Inr (t1, s1) \<Rightarrow>
             if tvalue t1 \<noteq> ''block'' then get_fields_loop fields s1
             else
               (case until s1 ''name'' of
                  Inl x \<Rightarrow> Inl x
                | Inr (t2, s2) \<Rightarrow>
                    (case until s2 ''block_end'' of
                       Inl x \<Rightarrow> Inl x
                     | Inr (t3, s3) \<Rightarrow>
                         (case parse_block s3 of
                            Inl x \<Rightarrow> Inl x
                          | Inr (data, s4) \<Rightarrow>
                              get_fields_loop
                                (AList.update (tvalue t2) (normalize data) fields) s4)))))"
  by pat_completeness auto
termination
proof (relation "measure (\<lambda>(fields, s). length (fst s))", goal_cases)
  case 1
  show ?case by simp
next
  case (2 fields token ts e)
  show ?case by simp
next
  case (3 fields token ts e x2 t1 s1)
  then show ?case by (auto dest: until_shorter)
next
  case (4 fields token ts e x2 t1 s1 x2a t2 s2 x2b t3 s3 x2c data s4)
  then show ?case
    by (auto simp: parse_block_def dest!: until_shorter parse_block_loop_shorter)
qed

text \<open>
  \<open>_get_fields\<close> (line 131). The lexer of the jinja2 library is the parameter \<open>lexer\<close>.
\<close>

definition get_fields :: "(string \<Rightarrow> stream) \<Rightarrow> string \<Rightarrow> error + (string \<times> string) list" where
  "get_fields lexer content = get_fields_loop [] (lexer content)"

section \<open>Template structure\<close>

text \<open>
  \<open>jinja2.Environment().parse(content).body\<close> is the list of the top-level nodes of the
  template. The code tells three kinds apart: a \<open>Block\<close> node, an \<open>Extends\<close> node with
  its template expression, and every other node. The parser of the jinja2 library is the
  parameter \<open>parse\<close>; it raises \<open>TemplateSyntaxError\<close> on a malformed template.
  \<open>as_const\<close> of a template expression that is not a constant raises \<open>Impossible\<close>;
  constants that are not strings are not modelled.
\<close>

datatype expr = Const string | NonConst

datatype node = Block string | Extends expr | Other

type_synonym parser = "string \<Rightarrow> error + node list"

fun as_const :: "expr \<Rightarrow> error + string" where
  "as_const (Const c) = Inr c"
| "as_const NonConst = Inl Impossible"

fun is_template_body :: "node list \<Rightarrow> bool" where
  "is_template_body [] = False"
| "is_template_body (Block n # items) = True"
| "is_template_body (item # items) = is_template_body items"

text \<open>\<open>_is_template\<close> (line 85).\<close>

definition is_template :: "parser \<Rightarrow> string \<Rightarrow> error + bool" where
  "is_template parse content =
     (case parse content of Inl x \<Rightarrow> Inl x | Inr body \<Rightarrow> Inr (is_template_body body))"

fun get_template_body :: "node list \<Rightarrow> error + string" where
  "get_template_body [] = Inr []"
| "get_template_body (Extends t # items) = as_const t"
| "get_template_body (item # items) = get_template_body items"

text \<open>\<open>_get_template\<close> (line 92).\<close>

definition get_template :: "parser \<Rightarrow> string \<Rightarrow> error + string" where
  "get_template parse content =
     (case parse content of Inl x \<Rightarrow> Inl x | Inr body \<Rightarrow> get_template_body body)"

section \<open>Rendering\<close>

text \<open>
  \<open>render_template\<close> belongs to Flask; \<open>render\<close> is modelled up to the context it hands
  to the template engine. \<open>File.render\<close> (line 31) passes the path, the normalized
  content and the fingerprint; with a submitted form (the page shown again after a
  rejected edit) the content is the form's.
\<close>

datatype file_context =
  FileContext (fc_path: string) (fc_content: string) (fc_content_hash: string)

definition open_read :: "storage \<Rightarrow> string \<Rightarrow> error + string" where
  "open_read st p = (case files st p of None \<Rightarrow> Inl FileNotFoundError | Some c \<Rightarrow> Inr c)"

definition File_render :: "storage \<Rightarrow> string \<Rightarrow> form option \<Rightarrow> error + file_context" where
  "File_render st path kwargs_form =
     (case open_read st (fullpath path) of
        Inl x \<Rightarrow> Inl x
      | Inr content \<Rightarrow>
          (let content_hash = hash content in
           case kwargs_form of
             None \<Rightarrow> Inr (FileContext path (normalize content) content_hash)
           | Some form \<Rightarrow>
               (case form_get form ''content'' of
                  None \<Rightarrow> Inl KeyError
                | Some c \<Rightarrow> Inr (FileContext path (normalize c) content_hash))))"

text \<open>\<open>_HTMLField\<close> (line 155) and the context of \<open>HTMLFile.render\<close> (line 169).\<close>

datatype HTMLField =
  HTMLField (name_prefix: string) (placeholder: string) (fvalue: string) (active: bool)

datatype html_context =
  HTMLContext (hc_path: string) (hc_template: string) (hc_templates: "string list")
    (hc_fields: "(string \<times> HTMLField) list") (hc_content_hash: string)

definition listdir :: "storage \<Rightarrow> string \<Rightarrow> error + string list" where
  "listdir st p = (case dirs st p of None \<Rightarrow> Inl FileNotFoundError | Some names \<Rightarrow> Inr names)"

text \<open>The fields of a submitted form (lines 185 to 194).\<close>

definition form_fields :: "form \<Rightarrow> (string \<times> HTMLField) list" where
  "form_fields form =
     (let fields = dict_of (map (\<lambda>kv. (drop (length ''field_'') (fst kv),
                                        HTMLField ''field_'' [] (snd kv) True))
                             (filter (\<lambda>kv. startswith (fst kv) ''field_'') (form_items form)))
      in case form_get form ''content'' of
           None \<Rightarrow> fields
         | Some c \<Rightarrow> AList.update ''content'' (HTMLField [] [] c True) fields)"

text \<open>
  The fields of a template that extends a parent (lines 199 to 217): the parent's fields as
  placeholders, then \<open>fields.update\<close> with the child's own fields. The comprehension
  passed to \<open>update\<close> is evaluated in full before \<open>update\<close> runs, so \<open>name in fields\<close>
  looks at the parent's fields.
\<close>

definition parent_fields :: "(string \<times> string) list \<Rightarrow> (string \<times> HTMLField) list" where
  "parent_fields pf = dict_of (map (\<lambda>kv. (fst kv, HTMLField ''field_'' (snd kv) [] True)) pf)"

definition child_fields ::
  "(string \<times> HTMLField) list \<Rightarrow> (string \<times> string) list \<Rightarrow> (string \<times> HTMLField) list" where
  "child_fields fields cf =
     dict_of (map (\<lambda>kv. (fst kv,
                     HTMLField ''field_''
                       (case map_of fields (fst kv) of Some f \<Rightarrow> placeholder f | None \<Rightarrow> [])
                       (snd kv)
                       (map_of fields (fst kv) \<noteq> None))) cf)"

definition resolve_fields ::
  "(string \<Rightarrow> stream) \<Rightarrow> storage \<Rightarrow> string \<Rightarrow> string \<Rightarrow> string
     \<Rightarrow> error + (string \<times> HTMLField) list" where
  "resolve_fields lexer st path template content =
     (if template \<noteq> [] then
        (case open_read st (os_path_join (project_dir path) template) of
           Inl x \<Rightarrow> Inl x
         | Inr parent \<Rightarrow>
             (case get_fields lexer parent of
                Inl x \<Rightarrow> Inl x
              | Inr pf \<Rightarrow>
                  (let fields = parent_fields pf in
                   case get_fields lexer content of
                     Inl x \<Rightarrow> Inl x
                   | Inr cf \<Rightarrow> Inr (dict_update fields (child_fields fields cf)))))
      else Inr [(''content'', HTMLField [] [] (normalize content) True)])"

definition HTMLFile_render ::
  "(string \<Rightarrow> stream) \<Rightarrow> parser \<Rightarrow> storage \<Rightarrow> string \<Rightarrow> form option
     \<Rightarrow> error + html_context" where
  "HTMLFile_render lexer parse st path kwargs_form =
     (case listdir st (os_path_join (project_dir path) TEMPLATE_DIR) of
        Inl x \<Rightarrow> Inl x
      | Inr names \<Rightarrow>
          (let templates = map (os_path_join TEMPLATE_DIR) names in
           case open_read st (fullpath path) of
             Inl x \<Rightarrow> Inl x
           | Inr content \<Rightarrow>
               (let content_hash = hash content in
                case (case kwargs_form of
                        Some form \<Rightarrow>
                          (case form_get form ''template'' of
                             None \<Rightarrow> Inl KeyError
                           | Some template \<Rightarrow> Inr (template, form_fields form))
                      | None \<Rightarrow>
                          (case get_template parse content of
                             Inl x \<Rightarrow> Inl x
                           | Inr template \<Rightarrow>
                               (case resolve_fields lexer st path template content of
                                  Inl x \<Rightarrow> Inl x
                                | Inr fields \<Rightarrow> Inr (template, fields)))) of
                  Inl x \<Rightarrow> Inl x
                | Inr (template, fields) \<Rightarrow>
                    Inr (HTMLContext path template
                           (sort (remdups (if template \<noteq> [] then templates @ [template]
                                           else templates)))
                           fields content_hash))))"

section \<open>Writing\<close>

text \<open>
  \<open>_write\<close> writes to an open file. The model returns the text written, in order, and the
  exception that ended the writing, if any. \<open>File._write\<close> (line 49):
\<close>

definition File_write :: "form \<Rightarrow> string \<times> error option" where
  "File_write form =
     (let content = normalize (case form_get form ''content'' of None \<Rightarrow> [] | Some c \<Rightarrow> c)
      in if content \<noteq> [] then (content @ ''\<newline>'', None) else ([], None))"

definition extends_text :: "string \<Rightarrow> string" where
  "extends_text template = ''{% extends \"'' @ template @ ''\" %}\<newline>''"

definition block_text :: "string \<Rightarrow> string \<Rightarrow> string" where
  "block_text field fcontent =
     ''\<newline>{% block '' @ field @ '' %}\<newline>'' @ (fcontent @ ''\<newline>'') @ ''{% endblock %}\<newline>''"

text \<open>The loop over the fields in structured mode (lines 251 to 257).\<close>

fun write_fields :: "(string \<times> string) list \<Rightarrow> string" where
  "write_fields [] = []"
| "write_fields (kv # rest) =
     (let fcontent = normalize (snd kv)
      in (if fcontent \<noteq> [] then block_text (fst kv) fcontent else []) @ write_fields rest)"

definition write_form_fields :: "form \<Rightarrow> (string \<times> string) list" where
  "write_form_fields form =
     dict_of (map (\<lambda>kv. (drop (length ''field_'') (fst kv), snd kv))
               (filter (\<lambda>kv. startswith (fst kv) ''field_'') (form_items form)))"

text \<open>
  \<open>HTMLFile._write\<close> (line 236). In \<open>template and not _is_template(content)\<close> the parser
  runs only when a template is set; when it raises, the \<open>extends\<close> line has been written.
\<close>

definition HTMLFile_write :: "parser \<Rightarrow> form \<Rightarrow> string \<times> error option" where
  "HTMLFile_write parse form =
     (let template = (case form_get form ''template'' of None \<Rightarrow> [] | Some t \<Rightarrow> t);
          content = form_get form ''content'';
          fields = write_form_fields form;
          out = (if template \<noteq> [] then extends_text template else [])
      in case content of
           None \<Rightarrow> (out @ write_fields fields, None)
         | Some c \<Rightarrow>
             (let content = normalize c in
              if content \<noteq> [] then
                (if template \<noteq> [] then
                   (case is_template parse content of
                      Inl x \<Rightarrow> (out, Some x)
                    | Inr t \<Rightarrow>
                        if \<not> t then (out @ block_text ''content'' content, None)
                        else (out @ (content @ ''\<newline>''), None))
                 else (out @ (content @ ''\<newline>''), None))
              else (out, None)))"

section \<open>Updating\<close>

text \<open>
  \<open>File.update\<close> (line 61) is inherited by \<open>HTMLFile\<close>; \<open>self._write\<close> is the method of
  the object's class. \<open>request.form\<close> and the argument \<open>form\<close> are the same object
  (src/cms/__init__.py, line 122). The result is the exception raised or the message
  returned (\<open>None\<close> for success), and the storage afterwards.

  In mode \<open>r+\<close> the file is rewritten from its start and cut after the text written; when
  \<open>_write\<close> raises, the file is closed without the cut, so the old text remains after the
  text written. In mode \<open>w\<close> the file starts empty. The directory of the file is taken to
  exist.
\<close>

datatype file_class = File | HTMLFile

definition edit_error :: string where
  "edit_error = ''Fehler beim Bearbeiten.''"

definition conflict_error :: string where
  "conflict_error =
     ''Datei wurde w'' @ [CHR 0xC3, CHR 0xA4] @ ''hrend des Bearbeiten auf der '' @
     ''Festplatte ver'' @ [CHR 0xC3, CHR 0xA4] @ ''ndert. Erneut auf Speichern klicken '' @
     ''um die Datei auf der Festplatte zu '' @ [CHR 0xC3, CHR 0xBC] @ ''berschreiben.''"

definition write_of :: "file_class \<Rightarrow> parser \<Rightarrow> form \<Rightarrow> string \<times> error option" where
  "write_of cls parse form = (case cls of File \<Rightarrow> File_write form | HTMLFile \<Rightarrow> HTMLFile_write parse form)"

definition store :: "storage \<Rightarrow> string \<Rightarrow> string \<Rightarrow> storage" where
  "store st p content = Storage ((files st)(p \<mapsto> content)) (dirs st)"

definition update ::
  "file_class \<Rightarrow> parser \<Rightarrow> string \<Rightarrow> form \<Rightarrow> storage \<Rightarrow> (error + string option) \<times> storage" where
  "update cls parse path form st =
     (case form_get form ''content_hash'' of
        None \<Rightarrow> (Inr (Some edit_error), st)
      | Some content_hash \<Rightarrow>
          (case files st (fullpath path) of
             Some current \<Rightarrow>
               if hash current \<noteq> content_hash then (Inr (Some conflict_error), st)
               else
                 (case write_of cls parse form of
                    (out, None) \<Rightarrow> (Inr None, store st (fullpath path) out)
                  | (out, Some x) \<Rightarrow>
                      (Inl x, store st (fullpath path) (out @ drop (length out) current)))
           | None \<Rightarrow>
               (case write_of cls parse form of
                  (out, None) \<Rightarrow> (Inr None, store st (fullpath path) out)
                | (out, Some x) \<Rightarrow> (Inl x, store st (fullpath path) out))))"

section \<open>A model of the lexer\<close>

text \<open>
  Modelled from the spec: the tokenizer (section 4.1) is the lexer of the jinja2 library,
  which is not part of src/. The model follows \<open>jinja2.lexer.Lexer.tokeniter\<close> with the
  settings of a default \<open>Environment\<close>, on the texts made of literal data and of tags
  \<open>{% ... %}\<close> that hold blanks, names and double-quoted strings without backslashes.
  On any other text (a variable tag, a comment, a raw block, a whitespace-control sign, an
  operator or a number inside a tag, a byte that is not ASCII inside a tag) the stream of
  the model ends with \<open>Unmodelled\<close>, and nothing is said about that text.

  The theorems that hold for every text take the lexer as a parameter; the model is used
  where a claim names a concrete text, and for the layout the serializer writes.
\<close>

definition is_space :: "char \<Rightarrow> bool" where
  "is_space c = (c = CHR '' '' \<or> c = CHR 0x09 \<or> c = CHR 0x0A)"

definition is_name_start :: "char \<Rightarrow> bool" where
  "is_name_start c =
     (c = CHR ''_'' \<or> (CHR ''a'' \<le> c \<and> c \<le> CHR ''z'') \<or> (CHR ''A'' \<le> c \<and> c \<le> CHR ''Z''))"

definition is_name_char :: "char \<Rightarrow> bool" where
  "is_name_char c = (is_name_start c \<or> (CHR ''0'' \<le> c \<and> c \<le> CHR ''9''))"

definition count_newlines :: "string \<Rightarrow> int" where
  "count_newlines s = int (length (filter (\<lambda>c. c = CHR 0x0A) s))"

definition scons :: "Token \<Rightarrow> stream \<Rightarrow> stream" where
  "scons t s = (t # fst s, snd s)"

text \<open>The literal data up to the next opening delimiter, and the text from there on.\<close>

fun lex_data :: "string \<Rightarrow> string \<times> string" where
  "lex_data (c # d # cs) =
     (if c = CHR ''{'' \<and> (d = CHR ''%'' \<or> d = CHR ''{'' \<or> d = CHR ''#'') then ([], c # d # cs)
      else (case lex_data (d # cs) of (data, rest) \<Rightarrow> (c # data, rest)))"
| "lex_data cs = (cs, [])"

lemma lex_data_length: "lex_data src = (data, rest) \<Longrightarrow> length rest \<le> length src"
  by (induction src arbitrary: data rest rule: lex_data.induct)
     (auto split: if_splits prod.splits)

text \<open>
  A tag is inside the model when no sign follows \<open>{%\<close> and its first word does not begin
  with \<open>raw\<close>.
\<close>

definition tag_modelled :: "string \<Rightarrow> bool" where
  "tag_modelled t =
     (\<not> startswith t ''-'' \<and> \<not> startswith t ''+'' \<and> \<not> startswith (dropWhile is_space t) ''raw'')"

definition is_string_char :: "char \<Rightarrow> bool" where
  "is_string_char c = (c \<noteq> CHR 0x22 \<and> c \<noteq> CHR 0x5C)"

function lex_root :: "int \<Rightarrow> string \<Rightarrow> stream" and lex_tag :: "int \<Rightarrow> string \<Rightarrow> stream" where
  "lex_root ln src =
     (case lex_data src of
        (data, rest) \<Rightarrow>
          (let ln' = ln + count_newlines data;
               s = (if rest = [] then ([], StopIteration)
                    else if startswith rest ''{%'' \<and> tag_modelled (drop 2 rest) then
                      scons (Token ln' ''block_begin'' ''{%'') (lex_tag ln' (drop 2 rest))
                    else ([], Unmodelled))
           in if data = [] then s else scons (Token ln ''data'' data) s))"
| "lex_tag ln [] = ([], StopIteration)"
| "lex_tag ln (c # cs) =
     (if c = CHR ''%'' \<and> startswith cs ''}'' then
        scons (Token ln ''block_end'' ''%}'') (lex_root ln (drop 1 cs))
      else if is_space c then
        (let w = takeWhile is_space (c # cs)
         in scons (Token ln ''whitespace'' w)
              (lex_tag (ln + count_newlines w) (dropWhile is_space cs)))
      else if is_name_start c then
        scons (Token ln ''name'' (takeWhile is_name_char (c # cs)))
          (lex_tag ln (dropWhile is_name_char cs))
      else if c = CHR 0x22 then
        (let body = takeWhile is_string_char cs; rest = dropWhile is_string_char cs
         in if startswith rest ''\"'' then
              scons (Token ln ''string'' (CHR 0x22 # body @ ''\"''))
                (lex_tag (ln + count_newlines body) (drop 1 rest))
            else ([], Unmodelled))
      else ([], Unmodelled))"
  by pat_completeness auto
termination
  apply (relation "measure (\<lambda>x. case x of Inl (ln, src) \<Rightarrow> 2 * length src + 1
                                      | Inr (ln, src) \<Rightarrow> 2 * length src)")
  apply simp
  subgoal for ln src x y xa
    using lex_data_length [of src x y] by (cases y) (auto simp: startswith_def)
  subgoal for ln c cs
    by simp
  subgoal for ln c cs x
    using length_dropWhile_le [of is_space cs] by simp
  subgoal for ln c cs
    using length_dropWhile_le [of is_name_char cs] by simp
  subgoal for ln c cs x xa
    using length_dropWhile_le [of is_string_char cs] by simp
  done

text \<open>
  The line terminators \<open>\r\n\<close>, \<open>\r\<close> and \<open>\n\<close> become \<open>\n\<close>, and one line terminator
  at the end of the text is dropped (\<open>keep_trailing_newline\<close> is off).
\<close>

fun normalize_newlines :: "string \<Rightarrow> string" where
  "normalize_newlines (c # d # cs) =
     (if c = CHR 0x0D \<and> d = CHR 0x0A then CHR 0x0A # normalize_newlines cs
      else if c = CHR 0x0D then CHR 0x0A # normalize_newlines (d # cs)
      else c # normalize_newlines (d # cs))"
| "normalize_newlines [c] = (if c = CHR 0x0D then [CHR 0x0A] else [c])"
| "normalize_newlines [] = []"

definition jinja_lex :: "string \<Rightarrow> stream" where
  "jinja_lex source =
     (let src = normalize_newlines source
      in lex_root 1 (if src \<noteq> [] \<and> last src = CHR 0x0A then butlast src else src))"

section \<open>Unterminated regions, in the words of the spec\<close>

text \<open>
  The spec (sections 3 and 4.2) calls a region unterminated when the depth is still
  positive at the end of the token stream. The two definitions below follow its words,
  not the code. A directive is a directive-open token followed by a name; the directives
  of a stream are those names, in order, and a stream that ends before the name of a
  directive has an unfinished directive (\<open>None\<close>) last. Inside a region at the given
  depth, \<open>block\<close> increments the depth, \<open>endblock\<close> decrements it, and the region
  closes when the depth returns to zero.
\<close>

fun directives :: "bool \<Rightarrow> Token list \<Rightarrow> string option list" where
  "directives False [] = []"
| "directives True [] = [None]"
| "directives False (t # ts) =
     (if ttype t = ''block_begin'' then directives True ts else directives False ts)"
| "directives True (t # ts) =
     (if ttype t = ''name'' then Some (tvalue t) # directives False ts else directives True ts)"

fun region_closes :: "nat \<Rightarrow> string option list \<Rightarrow> bool" where
  "region_closes depth [] = False"
| "region_closes depth (None # ds) = False"
| "region_closes depth (Some d # ds) =
     (if d = ''endblock'' then depth \<le> 1 \<or> region_closes (depth - 1) ds
      else if d = ''block'' then region_closes (depth + 1) ds
      else region_closes depth ds)"

section \<open>Templates of non-nested regions, in the words of the spec\<close>








section \<open>The layout of the serializer\<close>

text \<open>
  The texts that the structured mode of the serializer writes, described on their own:
  a field name that is an identifier of the lexer, and a field value that is not empty,
  is its own normalization, has no carriage return and holds no opening delimiter
  (\<open>{%\<close>, \<open>{{\<close> or \<open>{#\<close>), so no region nested in it.
\<close>

fun has_opener :: "string \<Rightarrow> bool" where
  "has_opener (c # d # cs) =
     (c = CHR ''{'' \<and> (d = CHR ''%'' \<or> d = CHR ''{'' \<or> d = CHR ''#'') \<or> has_opener (d # cs))"
| "has_opener cs = False"

definition is_identifier :: "string \<Rightarrow> bool" where
  "is_identifier n = (n \<noteq> [] \<and> is_name_start (hd n) \<and> list_all is_name_char n)"

definition plain_value :: "string \<Rightarrow> bool" where
  "plain_value v = (v \<noteq> [] \<and> normalize v = v \<and> \<not> has_opener v \<and> CHR 0x0D \<notin> set v)"

text \<open>The text of one region as the serializer lays it out, after the data before it.\<close>

definition region_text :: "string \<Rightarrow> string \<Rightarrow> string" where
  "region_text n v = ''{% block '' @ n @ '' %}'' @ (''\<newline>'' @ v @ ''\<newline>'') @ ''{% endblock %}''"

text \<open>
  The regions one after the other, each after the literal data \<open>d\<close> that precedes it:
  the serializer's text without its last line feed.
\<close>

fun canon :: "string \<Rightarrow> (string \<times> string) list \<Rightarrow> string" where
  "canon d [] = []"
| "canon d (kv # fs) = d @ region_text (fst kv) (snd kv) @ canon ''\<newline>\<newline>'' fs"

text \<open>
  The form that submits a field mapping in structured mode with no parent template: one
  key \<open>field_NAME\<close> for every field, in the order of the mapping.
\<close>

definition structured_form :: "(string \<times> string) list \<Rightarrow> form" where
  "structured_form fs = map (\<lambda>kv. (''field_'' @ fst kv, snd kv)) fs"

section \<open>Fingerprints of two concrete contents\<close>

lemma hash_a: "hash ''a'' = ''ca978112ca1bbdcafac231b39a23dc4da786eff8147c4e72b9807785afee48bb''"
  by code_simp

lemma hash_a_newline:
  "hash ''a\<newline>'' = ''87428fc522803d31065e7bce3cf03fe475096631e5e07bbd7a0fde60c4cf25c7''"
  by code_simp

lemma fullpath_example: "fullpath ''p/a.txt'' = ''projects/p/a.txt''"
  by (simp add: fullpath_def os_path_join_def PROJECT_DIR_def startswith_def)

lemma paths_example:
  "fullpath ''p/a.html'' = ''projects/p/a.html''"
  "os_path_join (project_dir ''p/a.html'') TEMPLATE_DIR = ''projects/p/templates''"
  by (simp_all add: fullpath_def project_dir_def os_path_join_def PROJECT_DIR_def
        TEMPLATE_DIR_def startswith_def)

section \<open>The edit guard\<close>

text \<open>
  C10: an edit whose form has no \<open>content_hash\<close> key is answered with the error message
  \<open>Fehler beim Bearbeiten.\<close> and the storage is left as it was, whatever the class of the
  file, the rest of the form and the state of the storage: no fingerprint is compared and
  nothing is written.
\<close>

theorem update_without_content_hash:
  "form_get form ''content_hash'' = None \<Longrightarrow>
   update cls parse path form st = (Inr (Some edit_error), st)"
  by (simp add: update_def)

theorem update_without_content_hash_witness:
  "form_get [(''content'', ''new'')] ''content_hash'' = None \<and>
   update File (\<lambda>s. Inl Unmodelled) ''p/a.txt'' [(''content'', ''new'')]
     (Storage [''projects/p/a.txt'' \<mapsto> ''old''] Map.empty)
   = (Inr (Some edit_error), Storage [''projects/p/a.txt'' \<mapsto> ''old''] Map.empty)"
proof -
  have h: "form_get [(''content'', ''new'')] ''content_hash'' = None"
    by (simp add: form_get_def)
  from h update_without_content_hash [OF h] show ?thesis by simp
qed

text \<open>
  C5: a write submitted with a fingerprint that differs from the fingerprint of the
  content now on storage is answered with the conflict message, and the storage is left
  as it was: the file keeps its current content and the submitted edit is not applied.
\<close>

theorem update_conflict:
  "form_get form ''content_hash'' = Some h \<Longrightarrow>
   files st (fullpath path) = Some current \<Longrightarrow>
   h \<noteq> hash current \<Longrightarrow>
   update cls parse path form st = (Inr (Some conflict_error), st)"
  by (auto simp: update_def)

text \<open>
  The scenario of the spec: the fingerprint was read when the file held \<open>a\<close>; the file
  was then changed to \<open>a\<close> and a line feed; the write carries the old fingerprint.
\<close>

theorem update_conflict_witness:
  "form_get [(''content_hash'', hash ''a''), (''content'', ''mine'')] ''content_hash''
     = Some (hash ''a'') \<and>
   files (Storage [''projects/p/a.txt'' \<mapsto> ''a\<newline>''] Map.empty) (fullpath ''p/a.txt'')
     = Some ''a\<newline>'' \<and>
   hash ''a'' \<noteq> hash ''a\<newline>'' \<and>
   update File (\<lambda>s. Inl Unmodelled) ''p/a.txt''
     [(''content_hash'', hash ''a''), (''content'', ''mine'')]
     (Storage [''projects/p/a.txt'' \<mapsto> ''a\<newline>''] Map.empty)
   = (Inr (Some conflict_error), Storage [''projects/p/a.txt'' \<mapsto> ''a\<newline>''] Map.empty)"
proof -
  have h1: "form_get [(''content_hash'', hash ''a''), (''content'', ''mine'')] ''content_hash''
              = Some (hash ''a'')"
    by (simp add: form_get_def)
  have h2: "files (Storage [''projects/p/a.txt'' \<mapsto> ''a\<newline>''] Map.empty)
              (fullpath ''p/a.txt'') = Some ''a\<newline>''"
    by (simp add: fullpath_example)
  have h3: "hash ''a'' \<noteq> hash ''a\<newline>''"
    by (simp add: hash_a hash_a_newline)
  from h1 h2 h3 update_conflict [OF h1 h2 h3] show ?thesis by blast
qed

lemma normalize_a_newline: "normalize ''a\<newline>'' = ''a''"
  by (simp add: normalize_def strip_def)

lemma render_a_newline:
  "File_render (Storage [''projects/p/a.txt'' \<mapsto> ''a\<newline>''] Map.empty) ''p/a.txt'' None
     = Inr (FileContext ''p/a.txt'' ''a'' (hash ''a\<newline>''))"
  by (simp add: File_render_def open_read_def fullpath_example normalize_a_newline)

text \<open>
  C3, as the spec states it, fails: the fingerprint that \<open>render\<close> hands out is the digest
  of the content as read, not of the normalized content. For a file that holds \<open>a\<close> and a
  line feed the two digests differ.
\<close>

theorem fingerprint_not_of_normalized_content:
  "File_render (Storage [''projects/p/a.txt'' \<mapsto> ''a\<newline>''] Map.empty) ''p/a.txt'' None
     = Inr (FileContext ''p/a.txt'' ''a''
              ''87428fc522803d31065e7bce3cf03fe475096631e5e07bbd7a0fde60c4cf25c7'')
   \<and> hash (normalize ''a\<newline>'')
     = ''ca978112ca1bbdcafac231b39a23dc4da786eff8147c4e72b9807785afee48bb''
   \<and> hash ''a\<newline>'' \<noteq> hash (normalize ''a\<newline>'')"
  by (simp add: render_a_newline normalize_a_newline hash_a hash_a_newline)

text \<open>
  \<open>render\<close> and \<open>update\<close> hash the text that \<open>read()\<close> returns, as it is returned.
\<close>

lemma fingerprint_of_text_read:
  assumes "files st (fullpath path) = Some content"
  shows "(File_render st path kf = Inr fc \<longrightarrow> fc_content_hash fc = hash content)
       \<and> (HTMLFile_render lexer parse st path kf = Inr hc \<longrightarrow> hc_content_hash hc = hash content)
       \<and> (form_get form ''content_hash'' = Some h \<longrightarrow>
            (fst (update cls parse path form st) = Inr (Some conflict_error)) = (h \<noteq> hash content))"
proof (intro conjI impI)
  assume "File_render st path kf = Inr fc"
  with assms show "fc_content_hash fc = hash content"
    by (auto simp: File_render_def open_read_def Let_def split: option.splits)
next
  assume "HTMLFile_render lexer parse st path kf = Inr hc"
  with assms show "hc_content_hash hc = hash content"
    by (auto simp: HTMLFile_render_def open_read_def Let_def split: sum.splits option.splits)
next
  assume "form_get form ''content_hash'' = Some h"
  with assms show "(fst (update cls parse path form st) = Inr (Some conflict_error)) = (h \<noteq> hash content)"
    by (auto simp: update_def split: prod.splits option.splits)
qed

lemma replace_crlf_id: "CHR 0x0D \<notin> set s \<Longrightarrow> replace_crlf s = s"
  by (induction s rule: replace_crlf.induct) auto

lemma universal_newlines_no_cr: "CHR 0x0D \<notin> set (universal_newlines s)"
  by (induction s rule: universal_newlines.induct) auto

lemma replace_crlf_universal: "replace_crlf (universal_newlines s) = universal_newlines s"
  by (rule replace_crlf_id) (rule universal_newlines_no_cr)

text \<open>
  C3, amended: the fingerprint handed to the caller on read, by \<open>File.render\<close> and by
  \<open>HTMLFile.render\<close>, with or without a submitted form, is the digest of the content
  after the line-terminator canonicalization alone. The file is read in text mode, which
  turns \<open>\r\n\<close> and \<open>\r\<close> into \<open>\n\<close>; the text read is hashed as it is, so the
  whitespace at its boundaries is not stripped before hashing. On the text read, the
  replacement step of \<open>_normalize\<close> changes nothing any more, and the normalized content
  is the text read with its boundaries stripped. At write time \<open>update\<close> recomputes the
  same digest: it answers with the conflict message exactly when the submitted fingerprint
  differs from it.
\<close>

theorem fingerprint_is_digest_of_canonical_content:
  assumes "disk (fullpath path) = Some raw"
  shows "(File_render (mount disk listing) path kf = Inr fc \<longrightarrow>
            fc_content_hash fc = hash (universal_newlines raw))
       \<and> (HTMLFile_render lexer parse (mount disk listing) path kf = Inr hc \<longrightarrow>
            hc_content_hash hc = hash (universal_newlines raw))
       \<and> (form_get form ''content_hash'' = Some h \<longrightarrow>
            (fst (update cls parse path form (mount disk listing)) = Inr (Some conflict_error))
              = (h \<noteq> hash (universal_newlines raw)))
       \<and> replace_crlf (universal_newlines raw) = universal_newlines raw
       \<and> normalize (universal_newlines raw) = strip ''\<newline> '' (universal_newlines raw)"
proof -
  have f: "files (mount disk listing) (fullpath path) = Some (universal_newlines raw)"
    using assms by (simp add: mount_def)
  show ?thesis
    using fingerprint_of_text_read [OF f, of kf fc lexer "parse" hc form h cls]
    by (simp add: replace_crlf_universal normalize_def)
qed

text \<open>
  A file that holds \<open>a\<close>, a carriage return and a line feed on disk: its fingerprint is
  the digest of \<open>a\<close> and a line feed, and an edit submitted with that fingerprint is not
  answered with the conflict message.
\<close>

lemma render_a_crlf:
  "File_render (mount [''projects/p/a.txt'' \<mapsto> [CHR ''a'', CHR 0x0D, CHR 0x0A]] Map.empty) ''p/a.txt'' None
     = Inr (FileContext ''p/a.txt'' ''a'' (hash ''a\<newline>''))"
  by (simp add: File_render_def open_read_def fullpath_example normalize_a_newline mount_def)

theorem fingerprint_is_digest_of_canonical_content_witness:
  "[''projects/p/a.txt'' \<mapsto> [CHR ''a'', CHR 0x0D, CHR 0x0A]] (fullpath ''p/a.txt'')
     = Some [CHR ''a'', CHR 0x0D, CHR 0x0A]
   \<and> universal_newlines [CHR ''a'', CHR 0x0D, CHR 0x0A] = ''a\<newline>''
   \<and> File_render (mount [''projects/p/a.txt'' \<mapsto> [CHR ''a'', CHR 0x0D, CHR 0x0A]] Map.empty)
         ''p/a.txt'' None
       = Inr (FileContext ''p/a.txt'' ''a'' (hash ''a\<newline>''))
   \<and> fc_content_hash (FileContext ''p/a.txt'' ''a'' (hash ''a\<newline>''))
       = ''87428fc522803d31065e7bce3cf03fe475096631e5e07bbd7a0fde60c4cf25c7''
   \<and> form_get [(''content_hash'', ''87428fc522803d31065e7bce3cf03fe475096631e5e07bbd7a0fde60c4cf25c7''),
                (''content'', ''b'')] ''content_hash''
       = Some ''87428fc522803d31065e7bce3cf03fe475096631e5e07bbd7a0fde60c4cf25c7''
   \<and> fst (update File (\<lambda>s. Inl Unmodelled) ''p/a.txt''
             [(''content_hash'', ''87428fc522803d31065e7bce3cf03fe475096631e5e07bbd7a0fde60c4cf25c7''),
              (''content'', ''b'')]
             (mount [''projects/p/a.txt'' \<mapsto> [CHR ''a'', CHR 0x0D, CHR 0x0A]] Map.empty))
       \<noteq> Inr (Some conflict_error)"
proof -
  let ?raw = "[CHR ''a'', CHR 0x0D, CHR 0x0A]"
  let ?h = "''87428fc522803d31065e7bce3cf03fe475096631e5e07bbd7a0fde60c4cf25c7''"
  let ?form = "[(''content_hash'', ?h), (''content'', ''b'')]"
  have d: "[''projects/p/a.txt'' \<mapsto> ?raw] (fullpath ''p/a.txt'') = Some ?raw"
    by (simp add: fullpath_example)
  have u: "universal_newlines ?raw = ''a\<newline>''" by simp
  have g: "form_get ?form ''content_hash'' = Some ?h" by (simp add: form_get_def)
  from fingerprint_is_digest_of_canonical_content
         [where disk = "[''projects/p/a.txt'' \<mapsto> ?raw]" and path = "''p/a.txt''"
            and raw = ?raw and listing = Map.empty and kf = None
            and fc = "FileContext ''p/a.txt'' ''a'' (hash ''a\<newline>'')"
            and form = ?form and h = ?h and cls = File and parse = "\<lambda>s. Inl Unmodelled", OF d]
  have "fc_content_hash (FileContext ''p/a.txt'' ''a'' (hash ''a\<newline>''))
          = hash (universal_newlines ?raw)"
    and "(fst (update File (\<lambda>s. Inl Unmodelled) ''p/a.txt'' ?form
                (mount [''projects/p/a.txt'' \<mapsto> ?raw] Map.empty)) = Inr (Some conflict_error))
          = (?h \<noteq> hash (universal_newlines ?raw))"
    using render_a_crlf g by blast+
  then have "fc_content_hash (FileContext ''p/a.txt'' ''a'' (hash ''a\<newline>'')) = ?h"
    and "fst (update File (\<lambda>s. Inl Unmodelled) ''p/a.txt'' ?form
                (mount [''projects/p/a.txt'' \<mapsto> ?raw] Map.empty)) \<noteq> Inr (Some conflict_error)"
    unfolding u by (simp_all add: hash_a_newline)
  with d u g render_a_crlf show ?thesis by blast
qed

section \<open>Raw-mode writes\<close>







section \<open>Nesting\<close>

lemma lex_nested:
  "jinja_lex ''{%block body%}{%block nested%}X{%endblock%}Y{%endblock%}'' =
    ([Token 1 ''block_begin'' ''{%'', Token 1 ''name'' ''block'',
      Token 1 ''whitespace'' '' '', Token 1 ''name'' ''body'',
      Token 1 ''block_end'' ''%}'', Token 1 ''block_begin'' ''{%'',
      Token 1 ''name'' ''block'', Token 1 ''whitespace'' '' '',
      Token 1 ''name'' ''nested'', Token 1 ''block_end'' ''%}'',
      Token 1 ''data'' ''X'', Token 1 ''block_begin'' ''{%'',
      Token 1 ''name'' ''endblock'', Token 1 ''block_end'' ''%}'',
      Token 1 ''data'' ''Y'', Token 1 ''block_begin'' ''{%'',
      Token 1 ''name'' ''endblock'', Token 1 ''block_end'' ''%}''],
     StopIteration)"
  by code_simp

text \<open>
  C7: on the text \<open>{%block body%}{%block nested%}X{%endblock%}Y{%endblock%}\<close> the field
  extraction returns exactly one field, \<open>body\<close>, whose content is the text
  \<open>{%block nested%}X{%endblock%}Y\<close>: the nested region stays inside the content, word for
  word, and the directives that open and close \<open>body\<close> are not part of it.
\<close>

theorem nested_region_is_one_field:
  "get_fields jinja_lex ''{%block body%}{%block nested%}X{%endblock%}Y{%endblock%}''
     = Inr [(''body'', ''{%block nested%}X{%endblock%}Y'')]"
  by (simp add: get_fields_def lex_nested parse_block_def normalize_def strip_def)

section \<open>Templates without a parent\<close>

lemma fields_block_a:
  "get_fields jinja_lex ''{%block a%}X{%endblock%}'' = Inr [(''a'', ''X'')]"
  by code_simp

lemma normalize_block_a_X:
  "normalize ''{%block a%}X{%endblock%}'' = ''{%block a%}X{%endblock%}''"
  by (simp add: normalize_def strip_def)

text \<open>
  C2, as the spec states it, fails: a template with no \<open>extends\<close> directive and one
  region \<open>a\<close> resolves to the single field \<open>content\<close> holding the whole text, while the
  field extractor returns the field \<open>a\<close> for the same text.
\<close>

theorem fields_without_extends_counterexample:
  "HTMLFile_render jinja_lex (\<lambda>s. Inr [Block ''a''])
       (Storage [''projects/p/a.html'' \<mapsto> ''{%block a%}X{%endblock%}'']
          [''projects/p/templates'' \<mapsto> []]) ''p/a.html'' None
     = Inr (HTMLContext ''p/a.html'' [] []
              [(''content'', HTMLField [] [] ''{%block a%}X{%endblock%}'' True)]
              (hash ''{%block a%}X{%endblock%}''))
   \<and> get_fields jinja_lex ''{%block a%}X{%endblock%}'' = Inr [(''a'', ''X'')]
   \<and> map fst [(''content'', HTMLField [] [] ''{%block a%}X{%endblock%}'' True)]
       \<noteq> map fst [(''a'', ''X'')]"
  by (simp add: HTMLFile_render_def listdir_def open_read_def paths_example get_template_def
        resolve_fields_def fields_block_a normalize_block_a_X)

text \<open>
  C2, amended: for every template whose text has no \<open>extends\<close> directive
  (\<open>_get_template\<close> returns the empty string), the resolved field set is the single field
  \<open>content\<close>, active, with no placeholder and no name prefix, whose value is the entire
  normalized text, whether or not the text has block directives; the field extractor is
  not run on such a template.
\<close>

theorem no_extends_gives_content_field:
  assumes "listdir st (os_path_join (project_dir path) TEMPLATE_DIR) = Inr names"
      and "files st (fullpath path) = Some content"
      and "get_template parse content = Inr []"
  shows "HTMLFile_render lexer parse st path None =
           Inr (HTMLContext path [] (sort (remdups (map (os_path_join TEMPLATE_DIR) names)))
                  [(''content'', HTMLField [] [] (normalize content) True)] (hash content))"
  using assms
  by (simp add: HTMLFile_render_def open_read_def resolve_fields_def Let_def)

theorem no_extends_gives_content_field_witness:
  "listdir (Storage [''projects/p/a.html'' \<mapsto> ''{%block a%}X{%endblock%}'']
              [''projects/p/templates'' \<mapsto> []])
     (os_path_join (project_dir ''p/a.html'') TEMPLATE_DIR) = Inr []
   \<and> get_template (\<lambda>s. Inr [Block ''a'']) ''{%block a%}X{%endblock%}'' = Inr []
   \<and> HTMLFile_render jinja_lex (\<lambda>s. Inr [Block ''a''])
       (Storage [''projects/p/a.html'' \<mapsto> ''{%block a%}X{%endblock%}'']
          [''projects/p/templates'' \<mapsto> []]) ''p/a.html'' None
     = Inr (HTMLContext ''p/a.html'' [] []
              [(''content'', HTMLField [] [] ''{%block a%}X{%endblock%}'' True)]
              (hash ''{%block a%}X{%endblock%}''))"
proof -
  let ?st = "Storage [''projects/p/a.html'' \<mapsto> ''{%block a%}X{%endblock%}'']
               [''projects/p/templates'' \<mapsto> []]"
  have l: "listdir ?st (os_path_join (project_dir ''p/a.html'') TEMPLATE_DIR) = Inr []"
    by (simp add: listdir_def paths_example)
  have f: "files ?st (fullpath ''p/a.html'') = Some ''{%block a%}X{%endblock%}''"
    by (simp add: paths_example)
  have g: "get_template (\<lambda>s. Inr [Block ''a'']) ''{%block a%}X{%endblock%}'' = Inr []"
    by (simp add: get_template_def)
  from no_extends_gives_content_field [OF l f g, of jinja_lex] l g show ?thesis
    by (simp add: normalize_block_a_X)
qed

section \<open>Structured-mode writes\<close>

subsection \<open>Dictionaries\<close>

lemma update_fresh: "k \<notin> fst ` set d \<Longrightarrow> AList.update k v d = d @ [(k, v)]"
  by (induction d) auto

lemma dict_update_distinct:
  "distinct (map fst (d @ kvs)) \<Longrightarrow> dict_update d kvs = d @ kvs"
proof (induction kvs arbitrary: d)
  case Nil
  then show ?case by (simp add: dict_update_def)
next
  case (Cons kv kvs)
  from Cons.prems have fresh: "fst kv \<notin> fst ` set d" by auto
  have "dict_update d (kv # kvs) = dict_update (AList.update (fst kv) (snd kv) d) kvs"
    by (simp add: dict_update_def)
  also have "\<dots> = dict_update (d @ [kv]) kvs"
    using update_fresh [OF fresh, of "snd kv"] by simp
  also have "\<dots> = (d @ [kv]) @ kvs"
    using Cons.prems by (intro Cons.IH) auto
  finally show ?case by simp
qed

lemma dict_of_distinct: "distinct (map fst kvs) \<Longrightarrow> dict_of kvs = kvs"
  using dict_update_distinct [of "[]" kvs] by (simp add: dict_of_def)

lemma map_of_dict_update: "map_of (dict_update d kvs) = map_of d ++ map_of (rev kvs)"
proof (induction kvs arbitrary: d)
  case Nil
  then show ?case by (simp add: dict_update_def)
next
  case (Cons kv kvs)
  have "map_of (dict_update d (kv # kvs))
          = map_of (dict_update (AList.update (fst kv) (snd kv) d) kvs)"
    by (simp add: dict_update_def)
  also have "\<dots> = map_of (AList.update (fst kv) (snd kv) d) ++ map_of (rev kvs)"
    by (rule Cons.IH)
  also have "\<dots> = map_of d ++ map_of (rev (kv # kvs))"
    by (cases kv) (simp add: AList.update_conv' map_add_upd_left map_add_def fun_eq_iff
          split: option.splits)
  finally show ?case .
qed

lemma map_of_rev_distinct: "distinct (map fst kvs) \<Longrightarrow> map_of (rev kvs) = map_of kvs"
proof (induction kvs)
  case Nil
  then show ?case by simp
next
  case (Cons kv kvs)
  then have "fst kv \<notin> dom (map_of kvs)" by (auto simp: dom_map_of_conv_image_fst)
  with Cons show ?case
    by (cases kv) (auto simp: fun_eq_iff map_add_def domIff split: option.splits)
qed

lemma map_of_map_key:
  "map_of (map (\<lambda>kv. (fst kv, f (fst kv) (snd kv))) kvs) k = map_option (f k) (map_of kvs k)"
  by (induction kvs) auto

subsection \<open>The form\<close>

lemma form_items_subset: "set (form_items form) \<subseteq> set form"
  by (induction form rule: form_items.induct) auto

lemma form_items_distinct: "distinct (map fst (form_items form))"
proof (induction form rule: form_items.induct)
  case 1
  then show ?case by simp
next
  case (2 kv rest)
  have "fst kv \<notin> fst ` set (form_items (filter (\<lambda>kv'. fst kv' \<noteq> fst kv) rest))"
    using form_items_subset [of "filter (\<lambda>kv'. fst kv' \<noteq> fst kv) rest"] by auto
  with 2 show ?case by simp
qed

lemma form_items_filter:
  "form_items (filter (\<lambda>kv. fst kv \<noteq> k) form) = filter (\<lambda>kv. fst kv \<noteq> k) (form_items form)"
proof (induction form rule: form_items.induct)
  case 1
  then show ?case by simp
next
  case (2 kv rest)
  show ?case
  proof (cases "fst kv = k")
    case True
    with 2 show ?thesis by simp
  next
    case False
    have "filter (\<lambda>kv'. fst kv' \<noteq> fst kv) (filter (\<lambda>kv. fst kv \<noteq> k) rest)
            = filter (\<lambda>kv. fst kv \<noteq> k) (filter (\<lambda>kv'. fst kv' \<noteq> fst kv) rest)"
      by (simp add: conj_commute)
    with False 2 show ?thesis by simp
  qed
qed

lemma form_get_filter:
  "key \<noteq> k \<Longrightarrow> form_get (filter (\<lambda>kv. fst kv \<noteq> k) form) key = form_get form key"
  by (induction form) (auto simp: form_get_def)

lemma startswith_split: "startswith s p \<Longrightarrow> s = p @ drop (length p) s"
  by (metis append_take_drop_id startswith_def)

lemma write_form_fields_eq:
  "write_form_fields form =
     map (\<lambda>kv. (drop (length ''field_'') (fst kv), snd kv))
       (filter (\<lambda>kv. startswith (fst kv) ''field_'') (form_items form))"
proof -
  let ?xs = "filter (\<lambda>kv. startswith (fst kv) ''field_'') (form_items form)"
  have d: "distinct (map fst ?xs)"
    using form_items_distinct [of form] by (simp add: distinct_map_filter)
  have inj: "inj_on (\<lambda>kv. drop (length ''field_'') (fst kv)) (set ?xs)"
  proof (rule inj_onI)
    fix a b
    assume a: "a \<in> set ?xs" and b: "b \<in> set ?xs"
      and eq: "drop (length ''field_'') (fst a) = drop (length ''field_'') (fst b)"
    from a b have "startswith (fst a) ''field_''" "startswith (fst b) ''field_''" by auto
    then have "fst a = ''field_'' @ drop (length ''field_'') (fst a)"
      "fst b = ''field_'' @ drop (length ''field_'') (fst b)"
      by (auto dest: startswith_split)
    with eq have "fst a = fst b" by metis
    with d a b show "a = b"
      by (meson distinct_map inj_onD)
  qed
  from d have "distinct ?xs" by (simp add: distinct_map)
  with inj have "distinct (map (\<lambda>kv. drop (length ''field_'') (fst kv)) ?xs)"
    by (simp only: distinct_map simp_thms)
  then have "distinct (map fst (map (\<lambda>kv. (drop (length ''field_'') (fst kv), snd kv)) ?xs))"
    by (simp only: map_map comp_def fst_conv)
  then show ?thesis
    unfolding write_form_fields_def by (rule dict_of_distinct)
qed

lemma write_fields_filter:
  "\<forall>kv \<in> set fs. fst kv = name \<longrightarrow> normalize (snd kv) = [] \<Longrightarrow>
   write_fields (filter (\<lambda>kv. fst kv \<noteq> name) fs) = write_fields fs"
  by (induction fs) (auto simp: Let_def)

lemma normalize_blank: "normalize ''  '' = []"
  by (simp add: normalize_def strip_def)

lemma write_without_title:
  "HTMLFile_write parse
     [(''content_hash'', h), (''template'', ''templates/base.html''), (''field_body'', ''Hi'')]
   = (''{% extends \"templates/base.html\" %}\<newline>\<newline>{% block body %}\<newline>Hi\<newline>{% endblock %}\<newline>'', None)"
  by (simp add: HTMLFile_write_def form_get_def write_form_fields_def dict_of_def dict_update_def
        startswith_def normalize_def strip_def block_text_def extends_text_def)

text \<open>
  C8: in a structured-mode write (the form has no \<open>content\<close> key) a field whose
  normalized value is the empty string contributes nothing to the output: the text
  written is the text written for the same form without that field. After an accepted
  update the file holds exactly that text, whatever it held before, so a region of that
  name in the old file is gone.
\<close>

theorem empty_field_omitted:
  assumes "form_get form ''content'' = None"
      and "(''field_'' @ name, v) \<in> set (form_items form)"
      and "normalize v = []"
  shows "HTMLFile_write parse form
           = HTMLFile_write parse (filter (\<lambda>kv. fst kv \<noteq> ''field_'' @ name) form)
       \<and> (files st (fullpath path) = Some old \<and> form_get form ''content_hash'' = Some (hash old) \<longrightarrow>
            update HTMLFile parse path form st =
              (Inr None, store st (fullpath path)
                 (fst (HTMLFile_write parse (filter (\<lambda>kv. fst kv \<noteq> ''field_'' @ name) form)))))"
proof -
  define form' where "form' = filter (\<lambda>kv. fst kv \<noteq> ''field_'' @ name) form"
  have t: "form_get form' ''template'' = form_get form ''template''"
    unfolding form'_def by (rule form_get_filter) simp
  have c: "form_get form' ''content'' = form_get form ''content''"
    unfolding form'_def by (rule form_get_filter) simp
  have only: "\<forall>kv \<in> set (write_form_fields form). fst kv = name \<longrightarrow> normalize (snd kv) = []"
  proof (intro ballI impI)
    fix kv
    assume "kv \<in> set (write_form_fields form)" and n: "fst kv = name"
    then obtain k w where kw: "(k, w) \<in> set (form_items form)" "startswith k ''field_''"
      and kv: "kv = (drop (length ''field_'') k, w)"
      by (auto simp: write_form_fields_eq)
    from kw(2) n kv have "k = ''field_'' @ name"
      by (auto dest: startswith_split)
    with kw(1) assms(2) form_items_distinct [of form] have "w = v"
      by (meson eq_key_imp_eq_value)
    with kv assms(3) show "normalize (snd kv) = []" by simp
  qed
  have "write_form_fields form' = filter (\<lambda>kv. fst kv \<noteq> name) (write_form_fields form)"
  proof -
    have "\<And>kv. startswith (fst kv) ''field_'' \<Longrightarrow>
            (fst kv \<noteq> ''field_'' @ name) = (drop (length ''field_'') (fst kv) \<noteq> name)"
      by (auto dest: startswith_split)
    then have "filter (\<lambda>kv. startswith (fst kv) ''field_'')
                 (filter (\<lambda>kv. fst kv \<noteq> ''field_'' @ name) (form_items form))
             = filter (\<lambda>kv. drop (length ''field_'') (fst kv) \<noteq> name)
                 (filter (\<lambda>kv. startswith (fst kv) ''field_'') (form_items form))"
      by (auto simp: conj_commute intro!: filter_cong)
    then show ?thesis
      unfolding form'_def by (simp add: write_form_fields_eq form_items_filter filter_map comp_def)
  qed
  with only have w: "write_fields (write_form_fields form') = write_fields (write_form_fields form)"
    by (simp add: write_fields_filter)
  have eq: "HTMLFile_write parse form = HTMLFile_write parse form'"
    using assms(1) by (simp add: HTMLFile_write_def t c w)
  have ok: "snd (HTMLFile_write parse form) = None"
    using assms(1) by (simp add: HTMLFile_write_def Let_def)
  show ?thesis
  proof (intro conjI impI)
    show "HTMLFile_write parse form
            = HTMLFile_write parse (filter (\<lambda>kv. fst kv \<noteq> ''field_'' @ name) form)"
      using eq unfolding form'_def .
  next
    assume "files st (fullpath path) = Some old \<and> form_get form ''content_hash'' = Some (hash old)"
    with ok eq have "update HTMLFile parse path form st =
              (Inr None, store st (fullpath path) (fst (HTMLFile_write parse form')))"
      by (cases "HTMLFile_write parse form'") (auto simp: update_def write_of_def)
    then show "update HTMLFile parse path form st =
              (Inr None, store st (fullpath path)
                 (fst (HTMLFile_write parse (filter (\<lambda>kv. fst kv \<noteq> ''field_'' @ name) form))))"
      unfolding form'_def .
  qed
qed

theorem empty_field_omitted_witness:
  "form_get [(''content_hash'', hash ''{% block title %}Home{% endblock %}''),
             (''template'', ''templates/base.html''), (''field_title'', ''  ''),
             (''field_body'', ''Hi'')] ''content'' = None
   \<and> normalize ''  '' = []
   \<and> update HTMLFile (\<lambda>s. Inl Unmodelled) ''p/a.html''
        [(''content_hash'', hash ''{% block title %}Home{% endblock %}''),
         (''template'', ''templates/base.html''), (''field_title'', ''  ''),
         (''field_body'', ''Hi'')]
        (Storage [''projects/p/a.html'' \<mapsto> ''{% block title %}Home{% endblock %}''] Map.empty)
      = (Inr None,
         Storage [''projects/p/a.html'' \<mapsto>
           ''{% extends \"templates/base.html\" %}\<newline>\<newline>{% block body %}\<newline>Hi\<newline>{% endblock %}\<newline>'']
           Map.empty)"
proof -
  let ?old = "''{% block title %}Home{% endblock %}''"
  let ?form = "[(''content_hash'', hash ?old), (''template'', ''templates/base.html''),
                (''field_title'', ''  ''), (''field_body'', ''Hi'')]"
  let ?st = "Storage [''projects/p/a.html'' \<mapsto> ?old] Map.empty"
  have h1: "form_get ?form ''content'' = None"
    by (simp add: form_get_def)
  have h2: "(''field_'' @ ''title'', ''  '') \<in> set (form_items ?form)"
    by simp
  have f: "files ?st (fullpath ''p/a.html'') = Some ?old"
    by (simp add: paths_example)
  have g: "form_get ?form ''content_hash'' = Some (hash ?old)"
    by (simp add: form_get_def)
  from empty_field_omitted [OF h1 h2 normalize_blank, of "\<lambda>s. Inl Unmodelled" ?st "''p/a.html''" ?old]
    f g
  have "update HTMLFile (\<lambda>s. Inl Unmodelled) ''p/a.html'' ?form ?st =
          (Inr None, store ?st (fullpath ''p/a.html'')
             (fst (HTMLFile_write (\<lambda>s. Inl Unmodelled)
                (filter (\<lambda>kv. fst kv \<noteq> ''field_'' @ ''title'') ?form))))"
    by blast
  then have "update HTMLFile (\<lambda>s. Inl Unmodelled) ''p/a.html'' ?form ?st =
          (Inr None, Storage [''projects/p/a.html'' \<mapsto>
             ''{% extends \"templates/base.html\" %}\<newline>\<newline>{% block body %}\<newline>Hi\<newline>{% endblock %}\<newline>'']
             Map.empty)"
    by (simp add: write_without_title store_def paths_example)
  with h1 normalize_blank show ?thesis by blast
qed

section \<open>Inheritance\<close>

lemma get_fields_loop_distinct:
  "get_fields_loop fields s = Inr r \<Longrightarrow> distinct (map fst fields) \<Longrightarrow> distinct (map fst r)"
  by (induction fields s rule: get_fields_loop.induct)
     (auto split: if_splits sum.splits prod.splits simp: AList.distinct_update)

lemma get_fields_distinct: "get_fields lexer content = Inr r \<Longrightarrow> distinct (map fst r)"
  using get_fields_loop_distinct [of "[]" "lexer content" r] by (simp add: get_fields_def)

lemma fields_child:
  "get_fields jinja_lex ''{%extends \"parent\"%}{%block body%}Hi{%endblock%}'' = Inr [(''body'', ''Hi'')]"
  by code_simp

lemma fields_parent:
  "get_fields jinja_lex ''{%block title%}Home{%endblock%}'' = Inr [(''title'', ''Home'')]"
  by code_simp

lemma parent_path: "os_path_join (project_dir ''p/a.html'') ''parent'' = ''projects/p/parent''"
  by (simp add: project_dir_def os_path_join_def PROJECT_DIR_def startswith_def)

text \<open>
  C1, as the spec states it, fails on the spec's own example. The parent has the field
  \<open>title\<close> with content \<open>Home\<close>; the child extends it and has the field \<open>body\<close> with
  content \<open>Hi\<close>. The code marks \<open>title\<close>, found only in the parent, active, and
  \<open>body\<close>, found in the child's own text, not active.
\<close>

theorem inherited_fields_counterexample:
  "HTMLFile_render jinja_lex (\<lambda>s. Inr [Extends (Const ''parent''), Block ''body''])
     (Storage [''projects/p/a.html'' \<mapsto> ''{%extends \"parent\"%}{%block body%}Hi{%endblock%}'',
               ''projects/p/parent'' \<mapsto> ''{%block title%}Home{%endblock%}'']
        [''projects/p/templates'' \<mapsto> []])
     ''p/a.html'' None
   = Inr (HTMLContext ''p/a.html'' ''parent'' [''parent'']
            [(''title'', HTMLField ''field_'' ''Home'' [] True),
             (''body'', HTMLField ''field_'' [] ''Hi'' False)]
            (hash ''{%extends \"parent\"%}{%block body%}Hi{%endblock%}''))
   \<and> get_fields jinja_lex ''{%extends \"parent\"%}{%block body%}Hi{%endblock%}''
       = Inr [(''body'', ''Hi'')]
   \<and> get_fields jinja_lex ''{%block title%}Home{%endblock%}'' = Inr [(''title'', ''Home'')]
   \<and> active (HTMLField ''field_'' ''Home'' [] True) \<noteq> False
   \<and> active (HTMLField ''field_'' [] ''Hi'' False) \<noteq> True"
  by (simp add: HTMLFile_render_def listdir_def open_read_def paths_example parent_path
        get_template_def resolve_fields_def fields_child fields_parent parent_fields_def
        child_fields_def dict_of_def dict_update_def)

text \<open>
  C1, amended: for every template that extends a parent, the resolved field mapping marks
  a field active exactly when the parent template has a region of that name. A field
  found only in the parent has the parent's content as placeholder, the empty value, and
  is active. A field found in the child's extraction has the child's content as value and
  the parent's content of that name (or the empty string) as placeholder, and is active
  when the parent has a region of that name.
\<close>

theorem extends_fields_active_iff_in_parent:
  assumes "listdir st (os_path_join (project_dir path) TEMPLATE_DIR) = Inr names"
      and "files st (fullpath path) = Some content"
      and "get_template parse content = Inr template" and "template \<noteq> []"
      and "files st (os_path_join (project_dir path) template) = Some parent"
      and "get_fields lexer parent = Inr pf"
      and "get_fields lexer content = Inr cf"
  shows "\<exists>ctx. HTMLFile_render lexer parse st path None = Inr ctx \<and> hc_template ctx = template \<and>
           (\<forall>name. map_of (hc_fields ctx) name =
              (case map_of cf name of
                 Some v \<Rightarrow>
                   Some (HTMLField ''field_'' (case map_of pf name of Some p \<Rightarrow> p | None \<Rightarrow> []) v
                           (map_of pf name \<noteq> None))
               | None \<Rightarrow>
                   (case map_of pf name of
                      Some p \<Rightarrow> Some (HTMLField ''field_'' p [] True)
                    | None \<Rightarrow> None))) \<and>
           (\<forall>name f. map_of (hc_fields ctx) name = Some f \<longrightarrow> active f = (map_of pf name \<noteq> None))"
proof -
  define fields where "fields = parent_fields pf"
  define result where "result = dict_update fields (child_fields fields cf)"
  have dp: "distinct (map fst pf)" and dc: "distinct (map fst cf)"
    using assms(6,7) by (auto dest: get_fields_distinct)
  have pf_map: "map_of fields name = map_option (\<lambda>p. HTMLField ''field_'' p [] True) (map_of pf name)"
    for name
  proof -
    have "distinct (map fst (map (\<lambda>kv. (fst kv, HTMLField ''field_'' (snd kv) [] True)) pf))"
      using dp by (simp add: comp_def)
    then have "fields = map (\<lambda>kv. (fst kv, HTMLField ''field_'' (snd kv) [] True)) pf"
      unfolding fields_def parent_fields_def by (rule dict_of_distinct)
    then show ?thesis
      using map_of_map_key [of "\<lambda>k p. HTMLField ''field_'' p [] True" pf name] by simp
  qed
  have cf_map: "map_of (child_fields fields cf) name =
      map_option (\<lambda>v. HTMLField ''field_''
                        (case map_of fields name of Some f \<Rightarrow> placeholder f | None \<Rightarrow> []) v
                        (map_of fields name \<noteq> None)) (map_of cf name)" for name
  proof -
    let ?g = "\<lambda>k v. HTMLField ''field_''
                 (case map_of fields k of Some f \<Rightarrow> placeholder f | None \<Rightarrow> []) v
                 (map_of fields k \<noteq> None)"
    have "distinct (map fst (map (\<lambda>kv. (fst kv, ?g (fst kv) (snd kv))) cf))"
      using dc by (simp add: comp_def)
    then have "child_fields fields cf = map (\<lambda>kv. (fst kv, ?g (fst kv) (snd kv))) cf"
      unfolding child_fields_def by (rule dict_of_distinct)
    then show ?thesis
      using map_of_map_key [of ?g cf name] by simp
  qed
  have dcf: "distinct (map fst (child_fields fields cf))"
  proof -
    let ?g = "\<lambda>k v. HTMLField ''field_''
                 (case map_of fields k of Some f \<Rightarrow> placeholder f | None \<Rightarrow> []) v
                 (map_of fields k \<noteq> None)"
    have d: "distinct (map fst (map (\<lambda>kv. (fst kv, ?g (fst kv) (snd kv))) cf))"
      using dc by (simp add: comp_def)
    then have "child_fields fields cf = map (\<lambda>kv. (fst kv, ?g (fst kv) (snd kv))) cf"
      unfolding child_fields_def by (rule dict_of_distinct)
    with d show ?thesis by simp
  qed
  have res_map: "map_of result name =
      (case map_of cf name of
         Some v \<Rightarrow>
           Some (HTMLField ''field_'' (case map_of pf name of Some p \<Rightarrow> p | None \<Rightarrow> []) v
                   (map_of pf name \<noteq> None))
       | None \<Rightarrow>
           (case map_of pf name of
              Some p \<Rightarrow> Some (HTMLField ''field_'' p [] True)
            | None \<Rightarrow> None))" for name
    unfolding result_def map_of_dict_update map_of_rev_distinct [OF dcf]
    by (simp add: map_add_def cf_map pf_map split: option.splits)
  have render: "HTMLFile_render lexer parse st path None =
      Inr (HTMLContext path template
             (sort (remdups (map (os_path_join TEMPLATE_DIR) names @ [template])))
             result (hash content))"
    using assms
    by (simp add: HTMLFile_render_def open_read_def resolve_fields_def Let_def
          result_def fields_def)
  have act: "active f = (map_of pf name \<noteq> None)" if "map_of result name = Some f" for name f
    using that unfolding res_map by (auto split: option.splits)
  from render res_map act show ?thesis by auto
qed

theorem extends_fields_active_iff_in_parent_witness:
  "\<exists>ctx. HTMLFile_render jinja_lex (\<lambda>s. Inr [Extends (Const ''parent''), Block ''body''])
     (Storage [''projects/p/a.html'' \<mapsto> ''{%extends \"parent\"%}{%block body%}Hi{%endblock%}'',
               ''projects/p/parent'' \<mapsto> ''{%block title%}Home{%endblock%}'']
        [''projects/p/templates'' \<mapsto> []])
     ''p/a.html'' None = Inr ctx
   \<and> hc_template ctx = ''parent''
   \<and> map_of (hc_fields ctx) ''title'' = Some (HTMLField ''field_'' ''Home'' [] True)
   \<and> map_of (hc_fields ctx) ''body'' = Some (HTMLField ''field_'' [] ''Hi'' False)
   \<and> map_of (hc_fields ctx) ''other'' = None"
proof -
  let ?child = "''{%extends \"parent\"%}{%block body%}Hi{%endblock%}''"
  let ?st = "Storage [''projects/p/a.html'' \<mapsto> ?child,
                      ''projects/p/parent'' \<mapsto> ''{%block title%}Home{%endblock%}'']
               [''projects/p/templates'' \<mapsto> []]"
  let ?parse = "\<lambda>s::string. (Inr [Extends (Const ''parent''), Block ''body''] :: error + node list)"
  have l: "listdir ?st (os_path_join (project_dir ''p/a.html'') TEMPLATE_DIR) = Inr []"
    by (simp add: listdir_def paths_example)
  have f: "files ?st (fullpath ''p/a.html'') = Some ?child"
    by (simp add: paths_example)
  have g: "get_template ?parse ?child = Inr ''parent''"
    by (simp add: get_template_def)
  have n: "''parent'' \<noteq> []" by simp
  have q: "files ?st (os_path_join (project_dir ''p/a.html'') ''parent'')
             = Some ''{%block title%}Home{%endblock%}''"
    by (simp add: parent_path)
  from extends_fields_active_iff_in_parent [OF l f g n q fields_parent fields_child]
  obtain ctx where ctx: "HTMLFile_render jinja_lex ?parse ?st ''p/a.html'' None = Inr ctx"
    "hc_template ctx = ''parent''"
    "\<And>name. map_of (hc_fields ctx) name =
              (case map_of [(''body'', ''Hi'')] name of
                 Some v \<Rightarrow>
                   Some (HTMLField ''field_''
                           (case map_of [(''title'', ''Home'')] name of Some p \<Rightarrow> p | None \<Rightarrow> []) v
                           (map_of [(''title'', ''Home'')] name \<noteq> None))
               | None \<Rightarrow>
                   (case map_of [(''title'', ''Home'')] name of
                      Some p \<Rightarrow> Some (HTMLField ''field_'' p [] True)
                    | None \<Rightarrow> None))"
    by blast
  have "map_of (hc_fields ctx) ''title'' = Some (HTMLField ''field_'' ''Home'' [] True)"
    "map_of (hc_fields ctx) ''body'' = Some (HTMLField ''field_'' [] ''Hi'' False)"
    "map_of (hc_fields ctx) ''other'' = None"
    by (simp_all add: ctx(3))
  with ctx(1,2) show ?thesis by blast
qed

section \<open>Unterminated regions\<close>

text \<open>
  The scanner of the code agrees with the spec's depth counter: the scan of a region
  returns exactly when the region closes, and otherwise raises the exception that ends
  the stream.
\<close>

lemma parse_block_tag_directives:
  "(case parse_block_tag buffer (ts, e) of
      Inl x \<Rightarrow> x = e \<and> directives True ts = [None]
    | Inr (b, t, s') \<Rightarrow> snd s' = e \<and> directives True ts = Some (tvalue t) # directives False (fst s'))"
proof (induction ts arbitrary: buffer)
  case Nil
  then show ?case by simp
next
  case (Cons a ts)
  show ?case
  proof (cases "ttype a = ''name''")
    case True
    then show ?thesis by simp
  next
    case False
    with Cons [of "buffer @ tvalue a"] show ?thesis
      by (auto split: sum.splits prod.splits)
  qed
qed

lemma parse_block_loop_closes:
  "1 \<le> depth \<Longrightarrow>
   (case parse_block_loop depth data (ts, e) of
      Inl x \<Rightarrow> x = e \<and> \<not> region_closes (nat depth) (directives False ts)
    | Inr r \<Rightarrow> region_closes (nat depth) (directives False ts))"
proof (induction depth data "(ts, e)" arbitrary: ts rule: parse_block_loop.induct)
  case (1 depth data)
  then show ?case by simp
next
  case (2 depth data token ts)
  show ?case
  proof (cases "ttype token = ''block_begin''")
    case False
    with "2.hyps"(4) [OF False "2.prems"] show ?thesis
      by (simp split: sum.splits)
  next
    case True
    show ?thesis
    proof (cases "parse_block_tag (tvalue token) (ts, e)")
      case (Inl x)
      with True parse_block_tag_directives [where buffer = "tvalue token" and ts = ts and e = e] show ?thesis by simp
    next
      case (Inr r)
      then obtain buffer token' ts' e' where
        tag: "parse_block_tag (tvalue token) (ts, e) = Inr (buffer, token', (ts', e'))"
        by (cases r) auto
      with parse_block_tag_directives [where buffer = "tvalue token" and ts = ts and e = e]
      have e': "e' = e" and dir: "directives True ts = Some (tvalue token') # directives False ts'"
        by simp_all
      note tag' = tag [unfolded e']
      show ?thesis
      proof (cases "tvalue token' = ''endblock''")
        case eb: True
        show ?thesis
        proof (cases "depth - 1 \<le> 0")
          case True
          with eb \<open>ttype token = ''block_begin''\<close> tag' dir "2.prems" show ?thesis by simp
        next
          case False
          then have "1 \<le> depth - 1" by simp
          from "2.hyps"(1) [OF \<open>ttype token = ''block_begin''\<close> tag' refl refl eb False this]
          have "case parse_block_loop (depth - 1) (data @ buffer @ tvalue token') (ts', e) of
                  Inl x \<Rightarrow> x = e \<and> \<not> region_closes (nat (depth - 1)) (directives False ts')
                | Inr r \<Rightarrow> region_closes (nat (depth - 1)) (directives False ts')" .
          moreover have "nat (depth - 1) = nat depth - 1" by simp
          moreover from False have "\<not> nat depth \<le> 1" by simp
          ultimately show ?thesis
            using eb \<open>ttype token = ''block_begin''\<close> tag' dir False
            by (simp split: sum.splits)
        qed
      next
        case neb: False
        show ?thesis
        proof (cases "tvalue token' = ''block''")
          case True
          from "2.prems" have "1 \<le> depth + 1" by simp
          from "2.hyps"(2) [OF \<open>ttype token = ''block_begin''\<close> tag' refl refl neb True this]
          have "case parse_block_loop (depth + 1) (data @ buffer @ tvalue token') (ts', e) of
                  Inl x \<Rightarrow> x = e \<and> \<not> region_closes (nat (depth + 1)) (directives False ts')
                | Inr r \<Rightarrow> region_closes (nat (depth + 1)) (directives False ts')" .
          moreover from "2.prems" have "nat (depth + 1) = nat depth + 1" by simp
          ultimately show ?thesis
            using neb True \<open>ttype token = ''block_begin''\<close> tag' dir
            by (simp split: sum.splits)
        next
          case False
          from "2.hyps"(3) [OF \<open>ttype token = ''block_begin''\<close> tag' refl refl neb False "2.prems"]
          have "case parse_block_loop depth (data @ buffer @ tvalue token') (ts', e) of
                  Inl x \<Rightarrow> x = e \<and> \<not> region_closes (nat depth) (directives False ts')
                | Inr r \<Rightarrow> region_closes (nat depth) (directives False ts')" .
          then show ?thesis
            using neb False \<open>ttype token = ''block_begin''\<close> tag' dir
            by (simp split: sum.splits)
        qed
      qed
    qed
  qed
qed


text \<open>
  The scans of the code only look ahead: a scan that succeeds on a stream succeeds in the
  same way when more tokens follow.
\<close>

lemma until_snd: "until s ty = Inr (t, s') \<Longrightarrow> snd s' = snd s"
  by (induction s ty rule: until.induct) (auto split: if_splits)

lemma parse_block_tag_snd: "parse_block_tag buffer s = Inr (b, t, s') \<Longrightarrow> snd s' = snd s"
  by (induction buffer s rule: parse_block_tag.induct) (auto split: if_splits)

lemma until_append:
  "until (ts, e0) ty = Inr (t, s') \<Longrightarrow> until (ts @ rest, e) ty = Inr (t, (fst s' @ rest, e))"
  by (induction ts) (auto split: if_splits)

lemma parse_block_tag_append:
  "parse_block_tag buffer (ts, e0) = Inr (b, t, s') \<Longrightarrow>
   parse_block_tag buffer (ts @ rest, e) = Inr (b, t, (fst s' @ rest, e))"
  by (induction ts arbitrary: buffer) (auto split: if_splits)

lemma until_skip:
  "\<forall>w \<in> set ws. ttype w \<noteq> ty \<Longrightarrow> ttype t = ty \<Longrightarrow>
   until (ws @ t # rest, e) ty = Inr (t, (rest, e))"
  by (induction ws) auto

lemma parse_block_loop_append:
  "parse_block_loop depth data (ts, e0) = Inr (r, s') \<Longrightarrow>
   parse_block_loop depth data (ts @ rest, e) = Inr (r, (fst s' @ rest, e))"
proof (induction depth data "(ts, e0)" arbitrary: ts rule: parse_block_loop.induct)
  case (1 depth data)
  then show ?case by simp
next
  case (2 depth data token ts)
  show ?case
  proof (cases "ttype token = ''block_begin''")
    case False
    with "2.prems" "2.hyps"(4) [OF False] show ?thesis by simp
  next
    case True
    then obtain buffer token' s1 where
      tag: "parse_block_tag (tvalue token) (ts, e0) = Inr (buffer, token', s1)"
      using "2.prems" by (auto split: sum.splits)
    from parse_block_tag_snd [OF tag] obtain ts1 where s1: "s1 = (ts1, e0)"
      by (cases s1) auto
    note tag1 = tag [unfolded s1]
    from parse_block_tag_append [OF tag1, of rest e]
    have tag2: "parse_block_tag (tvalue token) (ts @ rest, e) = Inr (buffer, token', (ts1 @ rest, e))"
      by simp
    have p: "(if tvalue token' = ''endblock'' then
               (if depth - 1 \<le> 0 then Inr (data, (ts1, e0))
                else parse_block_loop (depth - 1) (data @ buffer @ tvalue token') (ts1, e0))
             else if tvalue token' = ''block'' then
               parse_block_loop (depth + 1) (data @ buffer @ tvalue token') (ts1, e0)
             else parse_block_loop depth (data @ buffer @ tvalue token') (ts1, e0)) = Inr (r, s')"
      using "2.prems" True tag1 by simp
    show ?thesis
    proof (cases "tvalue token' = ''endblock''")
      case eb: True
      show ?thesis
      proof (cases "depth - 1 \<le> 0")
        case True
        with p eb have "r = data" "s' = (ts1, e0)" by simp_all
        with True eb \<open>ttype token = ''block_begin''\<close> tag2 show ?thesis by simp
      next
        case False
        with p eb have "parse_block_loop (depth - 1) (data @ buffer @ tvalue token') (ts1, e0) = Inr (r, s')"
          by simp
        from "2.hyps"(1) [OF \<open>ttype token = ''block_begin''\<close> tag1 refl refl eb False this]
        show ?thesis
          using False eb \<open>ttype token = ''block_begin''\<close> tag2 by simp
      qed
    next
      case neb: False
      show ?thesis
      proof (cases "tvalue token' = ''block''")
        case True
        with p neb have "parse_block_loop (depth + 1) (data @ buffer @ tvalue token') (ts1, e0) = Inr (r, s')"
          by simp
        from "2.hyps"(2) [OF \<open>ttype token = ''block_begin''\<close> tag1 refl refl neb True this]
        show ?thesis
          using True neb \<open>ttype token = ''block_begin''\<close> tag2 by simp
      next
        case False
        with p neb have "parse_block_loop depth (data @ buffer @ tvalue token') (ts1, e0) = Inr (r, s')"
          by simp
        from "2.hyps"(3) [OF \<open>ttype token = ''block_begin''\<close> tag1 refl refl neb False this]
        show ?thesis
          using False neb \<open>ttype token = ''block_begin''\<close> tag2 by simp
      qed
    qed
  qed
qed

lemma parse_block_loop_snd:
  "parse_block_loop depth data s = Inr (r, s') \<Longrightarrow> snd s' = snd s"
proof -
  assume a: "parse_block_loop depth data s = Inr (r, s')"
  obtain ts e where s: "s = (ts, e)" by (cases s)
  show ?thesis
    using a unfolding s
  proof (induction depth data "(ts, e)" arbitrary: ts rule: parse_block_loop.induct)
    case (1 depth data)
    then show ?case by simp
  next
    case (2 depth data token ts)
    show ?case
    proof (cases "ttype token = ''block_begin''")
      case False
      with "2.prems" "2.hyps"(4) [OF False] show ?thesis by simp
    next
      case True
      then obtain buffer token' s1 where
        tag: "parse_block_tag (tvalue token) (ts, e) = Inr (buffer, token', s1)"
        using "2.prems" by (auto split: sum.splits)
      from parse_block_tag_snd [OF tag] obtain ts1 where s1: "s1 = (ts1, e)"
        by (cases s1) auto
      note tag1 = tag [unfolded s1]
      show ?thesis
        using "2.prems" True tag1
          "2.hyps"(1) [OF True tag1 refl refl]
          "2.hyps"(2) [OF True tag1 refl refl]
          "2.hyps"(3) [OF True tag1 refl refl]
        by (auto split: if_splits)
    qed
  qed
qed


lemma parse_block_append:
  "parse_block (ts, e0) = Inr (r, s') \<Longrightarrow> parse_block (ts @ rest, e) = Inr (r, (fst s' @ rest, e))"
  unfolding parse_block_def by (rule parse_block_loop_append)

lemma parse_block_snd: "parse_block s = Inr (r, s') \<Longrightarrow> snd s' = snd s"
  unfolding parse_block_def by (rule parse_block_loop_snd)

lemma get_fields_loop_append:
  "get_fields_loop fields (pre, StopIteration) = Inr fields' \<Longrightarrow>
   get_fields_loop fields (pre @ rest, e) = get_fields_loop fields' (rest, e)"
proof (induction fields "(pre, StopIteration)" arbitrary: pre rule: get_fields_loop.induct)
  case (1 fields)
  then show ?case by simp
next
  case (2 fields token ts)
  show ?case
  proof (cases "ttype token \<noteq> ''block_begin''")
    case True
    with "2.prems" "2.hyps"(1) [OF True] show ?thesis by simp
  next
    case False
    then obtain t1 s1 where u1: "until (ts, StopIteration) ''name'' = Inr (t1, s1)"
      using "2.prems" by (auto split: sum.splits)
    from until_snd [OF u1] obtain ts1 where s1: "s1 = (ts1, StopIteration)"
      by (cases s1) auto
    note u1' = u1 [unfolded s1]
    from until_append [OF u1', of rest e]
    have a1: "until (ts @ rest, e) ''name'' = Inr (t1, (ts1 @ rest, e))" by simp
    show ?thesis
    proof (cases "tvalue t1 \<noteq> ''block''")
      case True
      with "2.prems" False u1' have "get_fields_loop fields (ts1, StopIteration) = Inr fields'"
        by simp
      from "2.hyps"(2) [OF False u1' refl True this] show ?thesis
        using False True a1 by simp
    next
      case blk: False
      then obtain t2 s2 where u2: "until (ts1, StopIteration) ''name'' = Inr (t2, s2)"
        using "2.prems" False u1' by (auto split: sum.splits)
      from until_snd [OF u2] obtain ts2 where s2: "s2 = (ts2, StopIteration)"
        by (cases s2) auto
      note u2' = u2 [unfolded s2]
      from until_append [OF u2', of rest e]
      have a2: "until (ts1 @ rest, e) ''name'' = Inr (t2, (ts2 @ rest, e))" by simp
      obtain t3 s3 where u3: "until (ts2, StopIteration) ''block_end'' = Inr (t3, s3)"
        using "2.prems" False u1' blk u2' by (auto split: sum.splits)
      from until_snd [OF u3] obtain ts3 where s3: "s3 = (ts3, StopIteration)"
        by (cases s3) auto
      note u3' = u3 [unfolded s3]
      from until_append [OF u3', of rest e]
      have a3: "until (ts2 @ rest, e) ''block_end'' = Inr (t3, (ts3 @ rest, e))" by simp
      obtain data s4 where pb: "parse_block (ts3, StopIteration) = Inr (data, s4)"
        using "2.prems" False u1' blk u2' u3' by (auto split: sum.splits)
      from parse_block_snd [OF pb] obtain ts4 where s4: "s4 = (ts4, StopIteration)"
        by (cases s4) auto
      note pb' = pb [unfolded s4]
      from parse_block_append [OF pb', of rest e]
      have a4: "parse_block (ts3 @ rest, e) = Inr (data, (ts4 @ rest, e))" by simp
      have "get_fields_loop (AList.update (tvalue t2) (normalize data) fields) (ts4, StopIteration)
              = Inr fields'"
        using "2.prems" False u1' blk u2' u3' pb' by simp
      from "2.hyps"(3) [OF False u1' refl blk u2' refl u3' refl pb' refl this]
      show ?thesis
        using False blk a1 a2 a3 a4 by simp
    qed
  qed
qed

lemma block_header:
  assumes "\<forall>t \<in> set wsa. ttype t \<noteq> ''name''"
      and "\<forall>t \<in> set wsb. ttype t \<noteq> ''name''"
      and "\<forall>t \<in> set wsc. ttype t \<noteq> ''block_end''"
  shows "get_fields_loop fields
           (Token la ''block_begin'' va # wsa @ Token lb ''name'' ''block'' # wsb @
            Token lc ''name'' n # wsc @ Token ld ''block_end'' vd # body, e)
         = (case parse_block (body, e) of
              Inl x \<Rightarrow> Inl x
            | Inr (data, s4) \<Rightarrow> get_fields_loop (AList.update n (normalize data) fields) s4)"
  using assms by (simp add: until_skip split: sum.splits)

lemma lex_unterminated:
  "jinja_lex ''{%block a%}X'' =
     ([] @ Token 1 ''block_begin'' ''{%'' # [] @ Token 1 ''name'' ''block'' #
      [Token 1 ''whitespace'' '' ''] @ Token 1 ''name'' ''a'' # [] @
      Token 1 ''block_end'' ''%}'' # [Token 1 ''data'' ''X''], StopIteration)"
  by code_simp

text \<open>
  C4: take any text whose token stream holds, after a prefix that the field extractor
  handles without error, a block open directive (directive-open, the name \<open>block\<close>, the
  region's name, directive-close) followed by tokens in which the region does not close:
  the depth is still positive at the end of the stream. Then \<open>_get_fields\<close> returns no
  field mapping, neither the fields gathered before nor a truncated field: it raises the
  exception that ends the stream, which is \<open>StopIteration\<close> when the lexer reached the
  end of the text. The witness is the text \<open>{%block a%}X\<close> of the spec.
\<close>

theorem unterminated_region_fails:
  assumes "lexer content =
             (pre @ Token la ''block_begin'' va # wsa @ Token lb ''name'' ''block'' # wsb @
              Token lc ''name'' n # wsc @ Token ld ''block_end'' vd # body, e)"
      and "get_fields_loop [] (pre, StopIteration) = Inr fields"
      and "\<forall>t \<in> set wsa. ttype t \<noteq> ''name''"
      and "\<forall>t \<in> set wsb. ttype t \<noteq> ''name''"
      and "\<forall>t \<in> set wsc. ttype t \<noteq> ''block_end''"
      and "\<not> region_closes 1 (directives False body)"
  shows "get_fields lexer content = Inl e"
proof -
  from parse_block_loop_closes [where depth = 1 and data = "[]" and ts = body and e = e] assms(6)
  have "parse_block (body, e) = Inl e"
    by (auto simp: parse_block_def split: sum.splits)
  with block_header [OF assms(3-5)]
  have "get_fields_loop fields
          (Token la ''block_begin'' va # wsa @ Token lb ''name'' ''block'' # wsb @
           Token lc ''name'' n # wsc @ Token ld ''block_end'' vd # body, e) = Inl e"
    by simp
  with get_fields_loop_append [OF assms(2)] show ?thesis
    by (simp add: get_fields_def assms(1))
qed

theorem unterminated_region_fails_witness:
  "get_fields jinja_lex ''{%block a%}X'' = Inl StopIteration"
proof -
  have pre: "get_fields_loop [] ([], StopIteration) = Inr []" by simp
  have body: "\<not> region_closes 1 (directives False [Token 1 ''data'' ''X''])" by simp
  have wsa: "\<forall>t \<in> set []. ttype t \<noteq> ''name''" by simp
  have wsb: "\<forall>t \<in> set [Token 1 ''whitespace'' '' '']. ttype t \<noteq> ''name''" by simp
  have wsc: "\<forall>t \<in> set []. ttype t \<noteq> ''block_end''" by simp
  show ?thesis
    by (rule unterminated_region_fails
          [where lexer = jinja_lex and content = "''{%block a%}X''" and pre = "[]" and wsa = "[]" and wsb = "[Token 1 ''whitespace'' '' '']"
             and wsc = "[]" and body = "[Token 1 ''data'' ''X'']" and fields = "[]",
           OF lex_unterminated pre wsa wsb wsc body])
qed

section \<open>Round trip\<close>



text \<open>Tokens of the lexer model on the serializer's layout.\<close>

lemma lex_data_plain:
  "\<not> has_opener d \<Longrightarrow> d = [] \<or> last d \<noteq> CHR ''{'' \<Longrightarrow>
   lex_data (d @ CHR ''{'' # CHR ''%'' # x) = (d, CHR ''{'' # CHR ''%'' # x)"
  by (induction d rule: has_opener.induct) auto

lemma name_start_not_space: "is_name_start c \<Longrightarrow> \<not> is_space c \<and> c \<noteq> CHR ''%'' \<and> c \<noteq> CHR 0x22"
  by (auto simp: is_name_start_def is_space_def)

lemma identifier_cases:
  assumes "is_identifier n"
  obtains c n' where "n = c # n'" "is_name_start c" "\<forall>x \<in> set n'. is_name_char x"
  using assms by (cases n) (auto simp: is_identifier_def list_all_iff)

lemma lex_tag_name:
  assumes "is_identifier n" and "\<not> is_name_char x"
  shows "lex_tag ln (n @ x # rest) = scons (Token ln ''name'' n) (lex_tag ln (x # rest))"
proof -
  from assms(1) obtain c n' where n: "n = c # n'" and c: "is_name_start c"
    and n': "\<forall>x \<in> set n'. is_name_char x"
    by (rule identifier_cases)
  from c have cc: "is_name_char c" by (simp add: is_name_char_def)
  have tw: "takeWhile is_name_char (c # n' @ x # rest) = c # n'"
    using cc n' assms(2) by (simp add: takeWhile_append2)
  have dw: "dropWhile is_name_char (n' @ x # rest) = x # rest"
    using n' assms(2) by (simp add: dropWhile_append2)
  show ?thesis
    unfolding n using name_start_not_space [OF c] c tw dw
    by (simp del: lex_tag.simps add: lex_tag.simps(2) [of ln c "n' @ x # rest"])
qed

lemma lex_tag_space:
  "\<not> is_space x \<Longrightarrow>
   lex_tag ln (CHR '' '' # x # rest) = scons (Token ln ''whitespace'' '' '') (lex_tag ln (x # rest))"
  by (simp del: lex_tag.simps add: lex_tag.simps(2) [of ln "CHR '' ''" "x # rest"]
        is_space_def count_newlines_def)

lemma lex_tag_end:
  "lex_tag ln (CHR ''%'' # CHR ''}'' # rest) = scons (Token ln ''block_end'' ''%}'') (lex_root ln rest)"
  by (simp del: lex_tag.simps lex_root.simps add: lex_tag.simps(2) [of ln "CHR ''%''" "CHR ''}'' # rest"]
        startswith_def)

lemma lex_tag_block_open:
  assumes "is_identifier n"
  shows "lex_tag ln ('' block '' @ n @ '' %}'' @ rest) =
           scons (Token ln ''whitespace'' '' '') (scons (Token ln ''name'' ''block'')
          (scons (Token ln ''whitespace'' '' '') (scons (Token ln ''name'' n)
          (scons (Token ln ''whitespace'' '' '') (scons (Token ln ''block_end'' ''%}'')
            (lex_root ln rest))))))"
proof -
  from assms obtain c n' where n: "n = c # n'" and c: "is_name_start c"
    by (rule identifier_cases)
  have b: "is_identifier ''block''"
    by (simp add: is_identifier_def is_name_start_def is_name_char_def)
  have sp: "\<not> is_name_char (CHR '' '')"
    by (simp add: is_name_char_def is_name_start_def)
  have 1: "lex_tag ln ('' block '' @ n @ '' %}'' @ rest) =
             scons (Token ln ''whitespace'' '' '') (lex_tag ln (''block'' @ CHR '' '' # (n @ '' %}'' @ rest)))"
    using lex_tag_space [of "CHR ''b''" ln] by (simp add: is_space_def del: lex_tag.simps)
  have 2: "lex_tag ln (''block'' @ CHR '' '' # (n @ '' %}'' @ rest)) =
             scons (Token ln ''name'' ''block'') (lex_tag ln (CHR '' '' # (n @ '' %}'' @ rest)))"
    by (rule lex_tag_name [OF b sp])
  have 3: "lex_tag ln (CHR '' '' # (n @ '' %}'' @ rest)) =
             scons (Token ln ''whitespace'' '' '') (lex_tag ln (n @ CHR '' '' # (''%}'' @ rest)))"
    unfolding n using lex_tag_space [of c ln] name_start_not_space [OF c]
    by (simp del: lex_tag.simps)
  have 4: "lex_tag ln (n @ CHR '' '' # (''%}'' @ rest)) =
             scons (Token ln ''name'' n) (lex_tag ln (CHR '' '' # (''%}'' @ rest)))"
    by (rule lex_tag_name [OF assms sp])
  have 5: "lex_tag ln (CHR '' '' # (''%}'' @ rest)) =
             scons (Token ln ''whitespace'' '' '') (scons (Token ln ''block_end'' ''%}'') (lex_root ln rest))"
    using lex_tag_space [of "CHR ''%''" ln "CHR ''}'' # rest"] lex_tag_end [of ln rest]
    by (simp add: is_space_def del: lex_tag.simps lex_root.simps)
  show ?thesis
    unfolding 1 2 3 4 5 ..
qed

lemma lex_tag_endblock:
  "lex_tag ln ('' endblock %}'' @ rest) =
     scons (Token ln ''whitespace'' '' '') (scons (Token ln ''name'' ''endblock'')
    (scons (Token ln ''whitespace'' '' '') (scons (Token ln ''block_end'' ''%}'')
      (lex_root ln rest))))"
proof -
  have b: "is_identifier ''endblock''"
    by (simp add: is_identifier_def is_name_start_def is_name_char_def)
  have sp: "\<not> is_name_char (CHR '' '')"
    by (simp add: is_name_char_def is_name_start_def)
  have 1: "lex_tag ln ('' endblock %}'' @ rest) =
             scons (Token ln ''whitespace'' '' '') (lex_tag ln (''endblock'' @ CHR '' '' # (''%}'' @ rest)))"
    using lex_tag_space [of "CHR ''e''" ln] by (simp add: is_space_def del: lex_tag.simps)
  have 2: "lex_tag ln (''endblock'' @ CHR '' '' # (''%}'' @ rest)) =
             scons (Token ln ''name'' ''endblock'') (lex_tag ln (CHR '' '' # (''%}'' @ rest)))"
    by (rule lex_tag_name [OF b sp])
  have 5: "lex_tag ln (CHR '' '' # (''%}'' @ rest)) =
             scons (Token ln ''whitespace'' '' '') (scons (Token ln ''block_end'' ''%}'') (lex_root ln rest))"
    using lex_tag_space [of "CHR ''%''" ln "CHR ''}'' # rest"] lex_tag_end [of ln rest]
    by (simp add: is_space_def del: lex_tag.simps lex_root.simps)
  show ?thesis
    unfolding 1 2 5 ..
qed

lemma lex_root_data_tag:
  assumes "d \<noteq> []" and "\<not> has_opener d" and "last d \<noteq> CHR ''{''" and "tag_modelled t"
  shows "lex_root ln (d @ ''{%'' @ t) =
           scons (Token ln ''data'' d)
             (scons (Token (ln + count_newlines d) ''block_begin'' ''{%'')
                (lex_tag (ln + count_newlines d) t))"
  using assms
  by (simp del: lex_tag.simps lex_root.simps
        add: lex_root.simps [of ln "d @ CHR ''{'' # CHR ''%'' # t"] lex_data_plain startswith_def
          Let_def)


lemma has_opener_append:
  "has_opener (a @ b) =
     (has_opener a \<or> has_opener b \<or>
      (a \<noteq> [] \<and> b \<noteq> [] \<and> last a = CHR ''{'' \<and>
       (hd b = CHR ''%'' \<or> hd b = CHR ''{'' \<or> hd b = CHR ''#'')))"
proof (induction a rule: has_opener.induct)
  case (1 c d cs)
  then show ?case by auto
qed (simp, cases b, auto)

lemma region_fields:
  assumes n: "is_identifier n" and v: "\<not> has_opener v"
      and d: "d \<noteq> []" "\<not> has_opener d" "last d \<noteq> CHR ''{''"
  shows "get_fields_loop fields (lex_root ln (d @ region_text n v @ rest)) =
           get_fields_loop (AList.update n (normalize (''\<newline>'' @ v @ ''\<newline>'')) fields)
             (lex_root (ln + count_newlines d + count_newlines (''\<newline>'' @ v @ ''\<newline>'')) rest)"
proof -
  let ?ln1 = "ln + count_newlines d"
  let ?body = "''\<newline>'' @ v @ ''\<newline>''"
  let ?ln2 = "?ln1 + count_newlines ?body"
  have tm1: "tag_modelled ('' block '' @ n @ '' %}'' @ ?body @ ''{% endblock %}'' @ rest)"
    by (simp add: tag_modelled_def startswith_def is_space_def)
  have tm2: "tag_modelled ('' endblock %}'' @ rest)"
    by (simp add: tag_modelled_def startswith_def is_space_def)
  have "\<not> has_opener (v @ ''\<newline>'')"
    using v by (simp add: has_opener_append)
  then have "\<not> has_opener (''\<newline>'' @ (v @ ''\<newline>''))"
    unfolding has_opener_append [of "''\<newline>''" "v @ ''\<newline>''"] by simp
  then have body: "?body \<noteq> []" "\<not> has_opener ?body" "last ?body \<noteq> CHR ''{''"
    by simp_all
  have "lex_root ln (d @ region_text n v @ rest) =
          lex_root ln (d @ ''{%'' @ ('' block '' @ n @ '' %}'' @ ?body @ ''{% endblock %}'' @ rest))"
    by (simp add: region_text_def del: lex_root.simps)
  also have "\<dots> = scons (Token ln ''data'' d) (scons (Token ?ln1 ''block_begin'' ''{%'')
                (lex_tag ?ln1 ('' block '' @ n @ '' %}'' @ ?body @ ''{% endblock %}'' @ rest)))"
    by (rule lex_root_data_tag [OF d tm1])
  also have "lex_tag ?ln1 ('' block '' @ n @ '' %}'' @ ?body @ ''{% endblock %}'' @ rest) =
           scons (Token ?ln1 ''whitespace'' '' '') (scons (Token ?ln1 ''name'' ''block'')
          (scons (Token ?ln1 ''whitespace'' '' '') (scons (Token ?ln1 ''name'' n)
          (scons (Token ?ln1 ''whitespace'' '' '') (scons (Token ?ln1 ''block_end'' ''%}'')
            (lex_root ?ln1 (?body @ ''{% endblock %}'' @ rest)))))))"
    by (rule lex_tag_block_open [OF n])
  also have "lex_root ?ln1 (?body @ ''{% endblock %}'' @ rest) =
          lex_root ?ln1 (?body @ ''{%'' @ ('' endblock %}'' @ rest))"
    by (simp del: lex_root.simps)
  also have "\<dots> = scons (Token ?ln1 ''data'' ?body) (scons (Token ?ln2 ''block_begin'' ''{%'')
                (lex_tag ?ln2 ('' endblock %}'' @ rest)))"
    by (rule lex_root_data_tag [OF body tm2])
  also have "lex_tag ?ln2 ('' endblock %}'' @ rest) =
     scons (Token ?ln2 ''whitespace'' '' '') (scons (Token ?ln2 ''name'' ''endblock'')
    (scons (Token ?ln2 ''whitespace'' '' '') (scons (Token ?ln2 ''block_end'' ''%}'')
      (lex_root ?ln2 rest))))"
    by (rule lex_tag_endblock)
  finally have lexed: "lex_root ln (d @ region_text n v @ rest) =
      scons (Token ln ''data'' d) (scons (Token ?ln1 ''block_begin'' ''{%'')
     (scons (Token ?ln1 ''whitespace'' '' '') (scons (Token ?ln1 ''name'' ''block'')
     (scons (Token ?ln1 ''whitespace'' '' '') (scons (Token ?ln1 ''name'' n)
     (scons (Token ?ln1 ''whitespace'' '' '') (scons (Token ?ln1 ''block_end'' ''%}'')
     (scons (Token ?ln1 ''data'' ?body) (scons (Token ?ln2 ''block_begin'' ''{%'')
     (scons (Token ?ln2 ''whitespace'' '' '') (scons (Token ?ln2 ''name'' ''endblock'')
     (scons (Token ?ln2 ''whitespace'' '' '') (scons (Token ?ln2 ''block_end'' ''%}'')
       (lex_root ?ln2 rest))))))))))))))" .
  obtain ts e where r: "lex_root ?ln2 rest = (ts, e)" by (cases "lex_root ?ln2 rest")
  show ?thesis
    unfolding lexed r
    by (simp add: scons_def parse_block_def del: lex_root.simps)
qed

lemma normalize_newlines_id: "CHR 0x0D \<notin> set s \<Longrightarrow> normalize_newlines s = s"
  by (induction s rule: normalize_newlines.induct) auto

lemma strip_wrapped:
  assumes "c \<in> set chars" and "c' \<in> set chars" and "s \<noteq> []" and "strip chars s = s"
  shows "strip chars (c # s @ [c']) = s"
proof -
  let ?P = "\<lambda>x. x \<in> set chars"
  have nonempty: "dropWhile ?P s \<noteq> []"
  proof
    assume e: "dropWhile ?P s = []"
    have "strip chars s = []" unfolding strip_def e by simp
    with assms(3,4) show False by simp
  qed
  then have "dropWhile ?P (s @ [c']) = dropWhile ?P s @ [c']"
    by (metis dropWhile_append1 dropWhile_eq_Nil_conv)
  then have "strip chars (c # s @ [c']) = rev (dropWhile ?P (c' # rev (dropWhile ?P s)))"
    using assms(1) by (simp add: strip_def)
  also have "\<dots> = strip chars s"
    using assms(2) by (simp add: strip_def)
  finally show ?thesis using assms(4) by simp
qed

lemma normalize_wrapped:
  assumes "plain_value v"
  shows "normalize (''\<newline>'' @ v @ ''\<newline>'') = v"
proof -
  from assms have v: "v \<noteq> []" "normalize v = v" "CHR 0x0D \<notin> set v"
    by (simp_all add: plain_value_def)
  from v(2,3) have "strip ''\<newline> '' v = v"
    by (simp add: normalize_def replace_crlf_id)
  from strip_wrapped [OF _ _ v(1) this, of "CHR 0x0A" "CHR 0x0A"]
  have "strip ''\<newline> '' (CHR 0x0A # v @ [CHR 0x0A]) = v" by simp
  moreover have "replace_crlf (CHR 0x0A # v @ [CHR 0x0A]) = CHR 0x0A # v @ [CHR 0x0A]"
    using v(3) by (intro replace_crlf_id) simp
  ultimately show ?thesis by (simp add: normalize_def)
qed

lemma canon_Cons: "fs \<noteq> [] \<Longrightarrow> canon (c # d) fs = c # canon d fs"
  by (cases fs) simp_all

lemma write_fields_canon:
  "\<forall>kv \<in> set fs. plain_value (snd kv) \<Longrightarrow>
   write_fields fs = (if fs = [] then [] else canon ''\<newline>'' fs @ ''\<newline>'')"
proof (induction fs)
  case Nil
  then show ?case by simp
next
  case (Cons kv fs)
  then have v: "normalize (snd kv) = snd kv" "snd kv \<noteq> []"
    by (simp_all add: plain_value_def)
  have bt: "block_text (fst kv) (snd kv) = ''\<newline>'' @ region_text (fst kv) (snd kv) @ ''\<newline>''"
    by (simp add: block_text_def region_text_def)
  show ?case
  proof (cases "fs = []")
    case True
    with v bt show ?thesis by simp
  next
    case False
    with Cons have "write_fields fs = canon ''\<newline>'' fs @ ''\<newline>''" by simp
    moreover from False have "canon ''\<newline>\<newline>'' fs = CHR 0x0A # canon ''\<newline>'' fs"
      using canon_Cons [of fs "CHR 0x0A" "''\<newline>''"] by simp
    ultimately show ?thesis using v bt by simp
  qed
qed

lemma name_char_not_cr: "is_name_char c \<Longrightarrow> c \<noteq> CHR 0x0D"
  by (auto simp: is_name_char_def is_name_start_def)

lemma canon_no_cr:
  "\<forall>kv \<in> set fs. is_identifier (fst kv) \<and> plain_value (snd kv) \<Longrightarrow> CHR 0x0D \<notin> set d \<Longrightarrow>
   CHR 0x0D \<notin> set (canon d fs)"
proof (induction fs arbitrary: d)
  case Nil
  then show ?case by simp
next
  case (Cons kv fs)
  then have "CHR 0x0D \<notin> set (fst kv)" "CHR 0x0D \<notin> set (snd kv)"
    by (auto simp: is_identifier_def plain_value_def list_all_iff dest: name_char_not_cr)
  moreover from Cons have "CHR 0x0D \<notin> set (canon ''\<newline>\<newline>'' fs)" by simp
  ultimately show ?case using Cons.prems(2) by (simp add: region_text_def)
qed

lemma lex_serialized:
  assumes "\<forall>kv \<in> set fs. is_identifier (fst kv) \<and> plain_value (snd kv)"
  shows "jinja_lex (write_fields fs) = lex_root 1 (canon ''\<newline>'' fs)"
proof (cases "fs = []")
  case True
  then show ?thesis by (simp add: jinja_lex_def del: lex_root.simps)
next
  case False
  from assms have w: "write_fields fs = canon ''\<newline>'' fs @ ''\<newline>''"
    using False by (simp add: write_fields_canon)
  from assms have "CHR 0x0D \<notin> set (canon ''\<newline>'' fs)"
    by (intro canon_no_cr) simp_all
  then have "normalize_newlines (write_fields fs) = write_fields fs"
    unfolding w by (intro normalize_newlines_id) simp
  then show ?thesis
    by (simp add: jinja_lex_def w del: lex_root.simps)
qed

lemma lex_root_Nil: "lex_root ln [] = ([], StopIteration)"
  by simp

lemma canon_fields:
  assumes "\<forall>kv \<in> set fs. is_identifier (fst kv) \<and> plain_value (snd kv)"
      and "d \<noteq> []" "\<not> has_opener d" "last d \<noteq> CHR ''{''"
  shows "get_fields_loop fields (lex_root ln (canon d fs)) = Inr (dict_update fields fs)"
  using assms
proof (induction fs arbitrary: fields ln d)
  case Nil
  then show ?case by (simp add: dict_update_def del: lex_root.simps add: lex_root_Nil)
next
  case (Cons kv fs)
  then have n: "is_identifier (fst kv)" and v: "plain_value (snd kv)" by simp_all
  from v have nv: "\<not> has_opener (snd kv)" by (simp add: plain_value_def)
  have d2: "''\<newline>\<newline>'' \<noteq> []" "\<not> has_opener ''\<newline>\<newline>''" "last ''\<newline>\<newline>'' \<noteq> CHR ''{''"
    by simp_all
  have "get_fields_loop fields (lex_root ln (canon d (kv # fs))) =
          get_fields_loop (AList.update (fst kv) (snd kv) fields)
            (lex_root (ln + count_newlines d + count_newlines (''\<newline>'' @ snd kv @ ''\<newline>''))
               (canon ''\<newline>\<newline>'' fs))"
    using region_fields [OF n nv Cons.prems(2-4), of fields ln "canon ''\<newline>\<newline>'' fs"]
      normalize_wrapped [OF v]
    by (simp del: lex_root.simps)
  also have "\<dots> = Inr (dict_update (AList.update (fst kv) (snd kv) fields) fs)"
    using Cons.prems(1) by (intro Cons.IH d2) simp
  finally show ?case by (simp add: dict_update_def)
qed

lemma form_items_distinct_id: "distinct (map fst form) \<Longrightarrow> form_items form = form"
proof (induction form)
  case Nil
  then show ?case by simp
next
  case (Cons kv form)
  then have "\<forall>kv' \<in> set form. fst kv' \<noteq> fst kv"
    by (auto simp: image_iff)
  then have "filter (\<lambda>kv'. fst kv' \<noteq> fst kv) form = form"
    by (intro filter_True) simp
  with Cons show ?case by simp
qed

lemma structured_form_get:
  "\<not> startswith key ''field_'' \<Longrightarrow> form_get (structured_form fs) key = None"
  by (induction fs) (auto simp: structured_form_def form_get_def startswith_def)

lemma write_structured_form:
  assumes "distinct (map fst fs)"
  shows "HTMLFile_write parse (structured_form fs) = (write_fields fs, None)"
proof -
  have d: "distinct (map fst (structured_form fs))"
    using assms by (simp add: structured_form_def comp_def distinct_map inj_on_def)
  have "filter (\<lambda>kv. startswith (fst kv) ''field_'') (structured_form fs) = structured_form fs"
    by (rule filter_True) (auto simp: structured_form_def startswith_def)
  then have "write_form_fields (structured_form fs) =
          map (\<lambda>kv. (drop (length ''field_'') (fst kv), snd kv)) (structured_form fs)"
    by (simp add: write_form_fields_eq form_items_distinct_id [OF d])
  also have "\<dots> = fs"
    by (simp add: structured_form_def comp_def)
  finally have "write_form_fields (structured_form fs) = fs" .
  then show ?thesis
    by (simp add: HTMLFile_write_def structured_form_get startswith_def)
qed

lemma write_fields_example:
  "write_fields [(''title'', ''Home''), (''body'', ''<p>a{b}</p>'')] =
     ''\<newline>{% block title %}\<newline>Home\<newline>{% endblock %}\<newline>\<newline>{% block body %}\<newline><p>a{b}</p>\<newline>{% endblock %}\<newline>''"
  by (simp add: normalize_def strip_def block_text_def)

text \<open>
  With the model of the lexer, the text that the structured mode writes for a field
  mapping with distinct identifier names and plain values is read back as that mapping,
  and the mapping is written as that text.
\<close>

lemma serializer_output_read_back:
  assumes "distinct (map fst fs)"
      and "\<forall>kv \<in> set fs. is_identifier (fst kv) \<and> plain_value (snd kv)"
  shows "get_fields jinja_lex (write_fields fs) = Inr fs
       \<and> HTMLFile_write parse (structured_form fs) = (write_fields fs, None)"
proof
  have "get_fields jinja_lex (write_fields fs) = Inr (dict_update [] fs)"
    unfolding get_fields_def lex_serialized [OF assms(2)]
    by (rule canon_fields [OF assms(2)]) simp_all
  with assms(1) show "get_fields jinja_lex (write_fields fs) = Inr fs"
    using dict_update_distinct [of "[]" fs] by simp
next
  show "HTMLFile_write parse (structured_form fs) = (write_fields fs, None)"
    by (rule write_structured_form [OF assms(1)])
qed

subsection \<open>The field extractor on a template of non-nested regions\<close>













end
